theory Spec2Isabelle
  imports Complex_Main "HOL-Library.Product_Lexorder" "HOL-Library.Multiset"
begin

section \<open>Cards and the sealed deck (deck module)\<close>

text \<open>
  \<^verbatim>\<open>SUITS\<close> and \<^verbatim>\<open>RANKS\<close> are the two constant arrays of the deck module. A card is
  built only by \<^verbatim>\<open>_buildDeck\<close>, from one entry of each array, so rank and suit are
  modelled as enumerations; \<^verbatim>\<open>card.value\<close> is \<^verbatim>\<open>RANKS.indexOf(rank)\<close>.
\<close>

datatype suit = Spades | Hearts | Diamonds | Clubs

datatype rank = R2 | R3 | R4 | R5 | R6 | R7 | R8 | R9 | R10 | RJ | RQ | RK | RA

definition SUITS :: "suit list" where
  "SUITS = [Spades, Hearts, Diamonds, Clubs]"

definition RANKS :: "rank list" where
  "RANKS = [R2, R3, R4, R5, R6, R7, R8, R9, R10, RJ, RQ, RK, RA]"

datatype card = Card (rank_of: rank) (suit_of: suit)

text \<open>\<^verbatim>\<open>RANKS.indexOf(rank)\<close>, written out for the thirteen ranks.\<close>

fun rank_index :: "rank \<Rightarrow> int" where
  "rank_index R2 = 0"
| "rank_index R3 = 1"
| "rank_index R4 = 2"
| "rank_index R5 = 3"
| "rank_index R6 = 4"
| "rank_index R7 = 5"
| "rank_index R8 = 6"
| "rank_index R9 = 7"
| "rank_index R10 = 8"
| "rank_index RJ = 9"
| "rank_index RQ = 10"
| "rank_index RK = 11"
| "rank_index RA = 12"

definition card_value :: "card \<Rightarrow> int" where
  "card_value c = rank_index (rank_of c)"

fun rank_string :: "rank \<Rightarrow> string" where
  "rank_string R2 = ''2''"
| "rank_string R3 = ''3''"
| "rank_string R4 = ''4''"
| "rank_string R5 = ''5''"
| "rank_string R6 = ''6''"
| "rank_string R7 = ''7''"
| "rank_string R8 = ''8''"
| "rank_string R9 = ''9''"
| "rank_string R10 = ''10''"
| "rank_string RJ = ''J''"
| "rank_string RQ = ''Q''"
| "rank_string RK = ''K''"
| "rank_string RA = ''A''"

text \<open>
  The suit symbols are the code points U+2660, U+2665, U+2666 and U+2663; a string is a list
  of bytes here, so each is written in UTF-8, the encoding the hash is fed with.
\<close>

fun suit_string :: "suit \<Rightarrow> string" where
  "suit_string Spades = [CHR 0xE2, CHR 0x99, CHR 0xA0]"
| "suit_string Hearts = [CHR 0xE2, CHR 0x99, CHR 0xA5]"
| "suit_string Diamonds = [CHR 0xE2, CHR 0x99, CHR 0xA6]"
| "suit_string Clubs = [CHR 0xE2, CHR 0x99, CHR 0xA3]"

definition toString :: "card \<Rightarrow> string" where
  "toString c = rank_string (rank_of c) @ suit_string (suit_of c)"

text \<open>\<^verbatim>\<open>Array.prototype.join\<close> with a separator.\<close>

fun join :: "string \<Rightarrow> string list \<Rightarrow> string" where
  "join sep [] = []"
| "join sep [x] = x"
| "join sep (x # y # ys) = x @ sep @ join sep (y # ys)"

datatype error =
    InvalidBuyIn | TableFull | NotEnoughPlayers | OutOfTurn | NoActiveHand
  | CannotCheck | NothingToCall | BelowMinRaise | InsufficientChips
  | EmptyDeck | NeedFiveCards | TypeError | RangeError

record SecureDeck =
  cards :: "card list"
  salt :: string
  commitment :: string
  revealed :: bool

record reveal =
  r_salt :: string
  r_commitment :: string
  r_remainingCards :: "string list"

text \<open>\<^verbatim>\<open>_buildDeck\<close>: for each suit, for each rank, push the card.\<close>

definition buildDeck :: "card list" where
  "buildDeck = concat (map (\<lambda>s. map (\<lambda>r. Card r s) RANKS) SUITS)"

definition swap :: "nat \<Rightarrow> nat \<Rightarrow> 'a list \<Rightarrow> 'a list" where
  "swap i j xs = xs[i := xs ! j, j := xs ! i]"

text \<open>
  \<^verbatim>\<open>_shuffle\<close>: for \<open>i\<close> from the last index down to 1, swap positions \<open>i\<close> and
  \<open>r mod (i + 1)\<close>, where \<open>r\<close> is the 32-bit number read from four fresh random bytes.
  The random source is the parameter \<open>rnd\<close>: \<open>rnd i\<close> is the number drawn at index \<open>i\<close>.
\<close>

primrec shuffle_loop :: "nat \<Rightarrow> (nat \<Rightarrow> nat) \<Rightarrow> 'a list \<Rightarrow> 'a list" where
  "shuffle_loop 0 rnd xs = xs"
| "shuffle_loop (Suc k) rnd xs =
     shuffle_loop k rnd (swap (Suc k) (rnd (Suc k) mod (Suc k + 1)) xs)"

definition shuffle :: "(nat \<Rightarrow> nat) \<Rightarrow> 'a list \<Rightarrow> 'a list" where
  "shuffle rnd xs = shuffle_loop (length xs - 1) rnd xs"

text \<open>
  \<^verbatim>\<open>_generateCommitment\<close>. The hash (SHA-256 of Node's crypto library, as a hex string)
  is the parameter \<open>H\<close>.
\<close>

definition generateCommitment :: "(string \<Rightarrow> string) \<Rightarrow> SecureDeck \<Rightarrow> SecureDeck" where
  "generateCommitment H d =
     d\<lparr>commitment := H (join '','' (map toString (cards d)) @ salt d)\<rparr>"

text \<open>
  The constructor: the salt (32 random bytes in hex) and the random source of the shuffle
  are parameters.
\<close>

definition new_SecureDeck :: "(string \<Rightarrow> string) \<Rightarrow> string \<Rightarrow> (nat \<Rightarrow> nat) \<Rightarrow> SecureDeck" where
  "new_SecureDeck H s rnd =
     generateCommitment H
       \<lparr>cards = shuffle rnd buildDeck, salt = s, commitment = [], revealed = False\<rparr>"

definition getCommitment :: "SecureDeck \<Rightarrow> string" where
  "getCommitment d = commitment d"

text \<open>\<^verbatim>\<open>deal\<close> pops the last element of the array.\<close>

definition deal :: "SecureDeck \<Rightarrow> error + (card \<times> SecureDeck)" where
  "deal d = (if length (cards d) = 0 then Inl EmptyDeck
             else Inr (last (cards d), d\<lparr>cards := butlast (cards d)\<rparr>))"

definition revealSalt :: "SecureDeck \<Rightarrow> reveal \<times> SecureDeck" where
  "revealSalt d =
     (\<lparr>r_salt = salt d, r_commitment = commitment d,
       r_remainingCards = map toString (cards d)\<rparr>,
      d\<lparr>revealed := True\<rparr>)"

definition cardsRemaining :: "SecureDeck \<Rightarrow> nat" where
  "cardsRemaining d = length (cards d)"

text \<open>A run of \<open>n\<close> calls of \<^verbatim>\<open>deal\<close>: the cards in the order dealt, and the deck left.\<close>

fun deals :: "nat \<Rightarrow> SecureDeck \<Rightarrow> error + (card list \<times> SecureDeck)" where
  "deals 0 d = Inr ([], d)"
| "deals (Suc n) d =
     (case deal d of
        Inl e \<Rightarrow> Inl e
      | Inr (c, d') \<Rightarrow>
          (case deals n d' of
             Inl e \<Rightarrow> Inl e
           | Inr (cs, d'') \<Rightarrow> Inr (c # cs, d'')))"

section \<open>Hand evaluator (evaluator module)\<close>

definition HIGH_CARD :: int where "HIGH_CARD = 1"
definition PAIR :: int where "PAIR = 2"
definition TWO_PAIR :: int where "TWO_PAIR = 3"
definition THREE_OF_A_KIND :: int where "THREE_OF_A_KIND = 4"
definition STRAIGHT :: int where "STRAIGHT = 5"
definition FLUSH :: int where "FLUSH = 6"
definition FULL_HOUSE :: int where "FULL_HOUSE = 7"
definition FOUR_OF_A_KIND :: int where "FOUR_OF_A_KIND = 8"
definition STRAIGHT_FLUSH :: int where "STRAIGHT_FLUSH = 9"
definition ROYAL_FLUSH :: int where "ROYAL_FLUSH = 10"

text \<open>
  The result object of the evaluator. \<open>hcards\<close> is the \<^verbatim>\<open>cards\<close> property that
  \<^verbatim>\<open>evaluateHand\<close> attaches to the best result (absent, here empty, on a result of
  \<^verbatim>\<open>evaluate5Cards\<close>).
\<close>

record hand =
  ranking :: int
  kickers :: "int list"
  hcards :: "card list"

text \<open>Array read \<^verbatim>\<open>xs[i]\<close>: \<open>None\<close> is \<^verbatim>\<open>undefined\<close>.\<close>

definition js_nth :: "'a list \<Rightarrow> nat \<Rightarrow> 'a option" where
  "js_nth xs i = (if i < length xs then Some (xs ! i) else None)"

fun checkStraight :: "int list \<Rightarrow> bool" where
  "checkStraight (x # y # ys) = (if x - y \<noteq> 1 then False else checkStraight (y # ys))"
| "checkStraight _ = True"

definition checkWheelStraight :: "int list \<Rightarrow> bool" where
  "checkWheelStraight ranks = (rev (sort ranks) = [12, 3, 2, 1, 0])"

text \<open>
  \<^verbatim>\<open>rankCounts\<close> is an object keyed by the rank values 0..12; \<^verbatim>\<open>Object.values\<close> and
  \<^verbatim>\<open>Object.entries\<close> enumerate such integer keys in ascending order.
\<close>

definition rankCounts :: "int list \<Rightarrow> (int \<times> int) list" where
  "rankCounts ranks = map (\<lambda>r. (r, int (count_list ranks r))) (sort (remdups ranks))"

text \<open>
  \<^verbatim>\<open>getKickers\<close>: the entries sorted by count, descending, then by rank, descending; the
  ranks of the sorted entries. The \<^verbatim>\<open>pattern\<close> argument is not read by the source.
\<close>

definition getKickers :: "(int \<times> int) list \<Rightarrow> int list \<Rightarrow> int list" where
  "getKickers rc pattern = map fst (sort_key (\<lambda>(r, c). (- c, - r)) rc)"

text \<open>
  \<^verbatim>\<open>evaluate5Cards\<close>. The sort by descending value is stable, as \<^verbatim>\<open>Array.prototype.sort\<close>
  is. The function is private to the module and every call passes five cards, so
  \<^verbatim>\<open>ranks[0]\<close> of the straight branch is \<open>hd ranks\<close>.
\<close>

definition evaluate5Cards :: "card list \<Rightarrow> hand" where
  "evaluate5Cards cs =
     (let sorted = sort_key (\<lambda>c. - card_value c) cs;
          ranks = map card_value sorted;
          suits = map suit_of sorted;
          isFlush = list_all (\<lambda>s. s = hd suits) suits;
          isStraight = checkStraight ranks;
          isWheelStraight = checkWheelStraight ranks;
          rc = rankCounts ranks;
          counts = rev (sort (map snd rc))
      in
        if isFlush \<and> isStraight \<and> js_nth ranks 0 = Some 12 then
          \<lparr>ranking = ROYAL_FLUSH, kickers = ranks, hcards = []\<rparr>
        else if isFlush \<and> (isStraight \<or> isWheelStraight) then
          \<lparr>ranking = STRAIGHT_FLUSH,
           kickers = (if isWheelStraight then [3, 2, 1, 0, -1] else ranks), hcards = []\<rparr>
        else if js_nth counts 0 = Some 4 then
          \<lparr>ranking = FOUR_OF_A_KIND, kickers = getKickers rc [4, 1], hcards = []\<rparr>
        else if js_nth counts 0 = Some 3 \<and> js_nth counts 1 = Some 2 then
          \<lparr>ranking = FULL_HOUSE, kickers = getKickers rc [3, 2], hcards = []\<rparr>
        else if isFlush then
          \<lparr>ranking = FLUSH, kickers = ranks, hcards = []\<rparr>
        else if isStraight \<or> isWheelStraight then
          \<lparr>ranking = STRAIGHT,
           kickers = (if isWheelStraight then [3] else [hd ranks]), hcards = []\<rparr>
        else if js_nth counts 0 = Some 3 then
          \<lparr>ranking = THREE_OF_A_KIND, kickers = getKickers rc [3, 1, 1], hcards = []\<rparr>
        else if js_nth counts 0 = Some 2 \<and> js_nth counts 1 = Some 2 then
          \<lparr>ranking = TWO_PAIR, kickers = getKickers rc [2, 2, 1], hcards = []\<rparr>
        else if js_nth counts 0 = Some 2 then
          \<lparr>ranking = PAIR, kickers = getKickers rc [2, 1, 1, 1], hcards = []\<rparr>
        else
          \<lparr>ranking = HIGH_CARD, kickers = ranks, hcards = []\<rparr>)"

text \<open>
  \<^verbatim>\<open>compareHands\<close>. The result is a JavaScript number: \<open>None\<close> is \<^verbatim>\<open>NaN\<close>, which the
  subtraction yields when the second kicker array is shorter than the first
  (\<^verbatim>\<open>b.kickers[i]\<close> is then \<^verbatim>\<open>undefined\<close>).
\<close>

fun compareKickers :: "int list \<Rightarrow> int list \<Rightarrow> int option" where
  "compareKickers [] ys = Some 0"
| "compareKickers (x # xs) [] = None"
| "compareKickers (x # xs) (y # ys) =
     (if x \<noteq> y then Some (x - y) else compareKickers xs ys)"

definition compareHands :: "hand \<Rightarrow> hand \<Rightarrow> int option" where
  "compareHands a b =
     (if ranking a \<noteq> ranking b then Some (ranking a - ranking b)
      else compareKickers (kickers a) (kickers b))"

text \<open>The tests \<^verbatim>\<open>x > 0\<close> and \<^verbatim>\<open>x === 0\<close> on such a number; both are false on \<^verbatim>\<open>NaN\<close>.\<close>

definition js_pos :: "int option \<Rightarrow> bool" where
  "js_pos x = (case x of None \<Rightarrow> False | Some v \<Rightarrow> 0 < v)"

definition js_zero :: "int option \<Rightarrow> bool" where
  "js_zero x = (case x of None \<Rightarrow> False | Some v \<Rightarrow> v = 0)"

fun getCombinations :: "'a list \<Rightarrow> nat \<Rightarrow> 'a list list" where
  "getCombinations arr (Suc 0) = map (\<lambda>el. [el]) arr"
| "getCombinations [] n = []"
| "getCombinations (el # rest) n =
     map ((#) el) (getCombinations rest (n - 1)) @ getCombinations rest n"

text \<open>One iteration of the loop of \<^verbatim>\<open>evaluateHand\<close> over the combinations.\<close>

definition bestStep :: "hand option \<Rightarrow> card list \<Rightarrow> hand option" where
  "bestStep bestHand combo =
     (let result = evaluate5Cards combo in
      case bestHand of
        None \<Rightarrow> Some (result\<lparr>hcards := combo\<rparr>)
      | Some b \<Rightarrow>
          if js_pos (compareHands result b) then Some (result\<lparr>hcards := combo\<rparr>)
          else Some b)"

text \<open>\<^verbatim>\<open>evaluateHand\<close>; \<open>Inr None\<close> is the return value \<^verbatim>\<open>null\<close>.\<close>

definition evaluateHand :: "card list \<Rightarrow> error + hand option" where
  "evaluateHand cs =
     (if length cs < 5 then Inl NeedFiveCards
      else Inr (foldl bestStep None (getCombinations cs 5)))"

section \<open>Table engine (table module)\<close>

text \<open>
  Chip amounts are JavaScript numbers. They are modelled as rationals with exact arithmetic:
  the rounding of doubles is not modelled, \<^verbatim>\<open>Math.floor\<close> is \<open>floor\<close>. Timestamps and the
  payload of log entries are left out; the table's \<^verbatim>\<open>id\<close>, \<^verbatim>\<open>name\<close> and
  \<^verbatim>\<open>actionTimeout\<close> are never read by the engine and are left out too.
\<close>

datatype phase = WAITING | PREFLOP | FLOP | TURN | RIVER | SHOWDOWN

record Player =
  p_id :: string
  moltbookId :: string
  walletAddress :: string
  chips :: rat
  holeCards :: "card list"
  p_currentBet :: rat
  totalBetThisHand :: rat
  folded :: bool
  allIn :: bool
  isConnected :: bool
  lastAction :: "string option"

record completedHand =
  c_handNumber :: nat
  c_winners :: "string list"
  c_pot :: rat
  c_uncontested :: bool

text \<open>
  \<open>players\<close> is the \<^verbatim>\<open>Map\<close> from player id to \<^verbatim>\<open>Player\<close>, in insertion order; the key
  of an entry is its \<open>p_id\<close>. A reference to a \<^verbatim>\<open>Player\<close> object is its position in
  this list. \<open>seats\<close> holds \<open>None\<close> for \<^verbatim>\<open>null\<close>.
\<close>

record table =
  maxPlayers :: nat
  smallBlind :: rat
  bigBlind :: rat
  minBuyIn :: rat
  maxBuyIn :: rat
  rake :: rat
  rakeMax :: rat
  players :: "Player list"
  seats :: "string option list"
  deck :: "SecureDeck option"
  communityCards :: "card list"
  pot :: rat
  sidePots :: "rat list"
  phase :: phase
  dealerSeat :: nat
  currentPlayerSeat :: "nat option"
  lastRaiserSeat :: "int option"
  currentBet :: rat
  minRaise :: rat
  handNumber :: nat
  deckCommitment :: "string option"
  handHistory :: "string list"
  completedHands :: "completedHand list"

text \<open>
  The outcome of a method of the table: it returns, leaving the table in the given state; it
  throws, with the state the table has at the throw; it never returns (a seat-search loop
  that finds no occupied seat); or, \<open>NotNumeric\<close>, it has passed its checks and written a
  value that is not a number (\<^verbatim>\<open>NaN\<close> or a string) into the chip fields of the table. A
  table with such a field is outside the state type, whose amounts are numbers, and the
  rest of that call is not followed. Only \<^verbatim>\<open>raise\<close> with an amount that is not a number
  ends so.
\<close>

datatype result = Returns table | Throws error table | Hangs | NotNumeric

text \<open>
  The \<^verbatim>\<open>amount\<close> argument of \<^verbatim>\<open>raise\<close>, which its callers pass on unchecked. \<open>Num r\<close> is
  the finite number \<open>r\<close>; \<open>NumStr r\<close> is a string that converts to the number \<open>r\<close> (the
  comparisons and \<^verbatim>\<open>-\<close> convert it, \<^verbatim>\<open>+=\<close> concatenates); \<open>NaN\<close> is a value that the
  comparisons and the arithmetic turn into \<^verbatim>\<open>NaN\<close> (\<^verbatim>\<open>undefined\<close>, \<^verbatim>\<open>NaN\<close> itself, a
  string that is no number); \<open>PosInf\<close> and \<open>NegInf\<close> are the two infinities.
\<close>

datatype amount = Num rat | NumStr rat | NaN | PosInf | NegInf

text \<open>
  The constructor, with the configuration already defaulted
  (\<^verbatim>\<open>config.x || default\<close>); \<^verbatim>\<open>new Array(maxPlayers).fill(null)\<close> is the seat array.
\<close>

definition new_Table :: "nat \<Rightarrow> rat \<Rightarrow> rat \<Rightarrow> rat \<Rightarrow> rat \<Rightarrow> rat \<Rightarrow> rat \<Rightarrow> table" where
  "new_Table maxP sb bb minB maxB rk rkMax =
     \<lparr>maxPlayers = maxP, smallBlind = sb, bigBlind = bb, minBuyIn = minB, maxBuyIn = maxB,
      rake = rk, rakeMax = rkMax, players = [], seats = replicate maxP None, deck = None,
      communityCards = [], pot = 0, sidePots = [], phase = WAITING, dealerSeat = 0,
      currentPlayerSeat = None, lastRaiserSeat = None, currentBet = 0, minRaise = bb,
      handNumber = 0, deckCommitment = None, handHistory = [], completedHands = []\<rparr>"

text \<open>The defaults of the constructor: six seats, blinds 10/20, buy-in 400..2000, rake 1/20, cap 100.\<close>

definition default_Table :: table where
  "default_Table = new_Table 6 10 20 (20 * 20) (20 * 100) (1 / 20) 100"

definition new_Player :: "string \<Rightarrow> string \<Rightarrow> string \<Rightarrow> rat \<Rightarrow> Player" where
  "new_Player i m w buyIn =
     \<lparr>p_id = i, moltbookId = m, walletAddress = w, chips = buyIn, holeCards = [],
      p_currentBet = 0, totalBetThisHand = 0, folded = False, allIn = False,
      isConnected = True, lastAction = None\<rparr>"

definition reset :: "Player \<Rightarrow> Player" where
  "reset p = p\<lparr>holeCards := [], p_currentBet := 0, totalBetThisHand := 0,
               folded := False, allIn := False, lastAction := None\<rparr>"

fun indexWhere :: "('a \<Rightarrow> bool) \<Rightarrow> 'a list \<Rightarrow> nat option" where
  "indexWhere P [] = None"
| "indexWhere P (x # xs) = (if P x then Some 0 else map_option Suc (indexWhere P xs))"

text \<open>\<^verbatim>\<open>Array.prototype.indexOf\<close>: \<open>-1\<close> when absent.\<close>

definition indexOf :: "'a list \<Rightarrow> 'a \<Rightarrow> int" where
  "indexOf xs x = (case indexWhere (\<lambda>y. y = x) xs of None \<Rightarrow> - 1 | Some i \<Rightarrow> int i)"

text \<open>\<^verbatim>\<open>players.get(id)\<close>: the reference to the entry with that key, if any.\<close>

definition players_get :: "Player list \<Rightarrow> string \<Rightarrow> nat option" where
  "players_get ps i = indexWhere (\<lambda>p. p_id p = i) ps"

text \<open>\<^verbatim>\<open>players.set(id, p)\<close>: an existing key keeps its place, a new one goes last.\<close>

definition players_set :: "Player list \<Rightarrow> Player \<Rightarrow> Player list" where
  "players_set ps p =
     (case players_get ps (p_id p) of None \<Rightarrow> ps @ [p] | Some i \<Rightarrow> ps[i := p])"

text \<open>A mutation of the \<^verbatim>\<open>Player\<close> object behind a reference.\<close>

definition upd :: "nat \<Rightarrow> (Player \<Rightarrow> Player) \<Rightarrow> Player list \<Rightarrow> Player list" where
  "upd i f ps = ps[i := f (ps ! i)]"

definition logAction :: "string \<Rightarrow> table \<Rightarrow> table" where
  "logAction a t = t\<lparr>handHistory := handHistory t @ [a]\<rparr>"

text \<open>
  \<^verbatim>\<open>addPlayer\<close>. \<open>now\<close> is the decimal string of \<^verbatim>\<open>Date.now()\<close>. The seat chosen:
  the preferred seat when it is given and holds \<^verbatim>\<open>null\<close>, otherwise the first seat that
  holds \<^verbatim>\<open>null\<close>; \<open>None\<close> is the \<open>-1\<close> of \<^verbatim>\<open>findIndex\<close>.
\<close>

definition addPlayer_seat :: "table \<Rightarrow> nat option \<Rightarrow> nat option" where
  "addPlayer_seat t preferredSeat =
     (case preferredSeat of
        None \<Rightarrow> indexWhere (\<lambda>s. s = None) (seats t)
      | Some s \<Rightarrow>
          if js_nth (seats t) s \<noteq> Some None then indexWhere (\<lambda>s. s = None) (seats t)
          else Some s)"

definition addPlayer_id :: "string \<Rightarrow> string \<Rightarrow> string" where
  "addPlayer_id m now = m @ ''-'' @ now"

definition addPlayer :: "table \<Rightarrow> string \<Rightarrow> string \<Rightarrow> rat \<Rightarrow> nat option \<Rightarrow> string \<Rightarrow> result" where
  "addPlayer t m w buyIn preferredSeat now =
     (if buyIn < minBuyIn t \<or> buyIn > maxBuyIn t then Throws InvalidBuyIn t
      else (case addPlayer_seat t preferredSeat of
        None \<Rightarrow> Throws TableFull t
      | Some seat \<Rightarrow>
          Returns (t\<lparr>players := players_set (players t) (new_Player (addPlayer_id m now) m w buyIn),
                     seats := (seats t)[seat := Some (addPlayer_id m now)]\<rparr>)))"

text \<open>\<^verbatim>\<open>removePlayer\<close>: the chips returned (\<open>None\<close> is \<^verbatim>\<open>null\<close>) and the table left.\<close>

definition removePlayer :: "table \<Rightarrow> string \<Rightarrow> rat option \<times> table" where
  "removePlayer t i =
     (case players_get (players t) i of
        None \<Rightarrow> (None, t)
      | Some k \<Rightarrow>
          (Some (chips (players t ! k)),
           t\<lparr>seats := (case indexWhere (\<lambda>s. s = Some i) (seats t) of
                         None \<Rightarrow> seats t
                       | Some seat \<Rightarrow> (seats t)[seat := None]),
             players := take k (players t) @ drop (Suc k) (players t)\<rparr>))"

definition getActivePlayers :: "table \<Rightarrow> nat list" where
  "getActivePlayers t =
     filter (\<lambda>i. chips (players t ! i) > 0 \<and> isConnected (players t ! i))
       [0 ..< length (players t)]"

definition getPlayersInHand :: "table \<Rightarrow> nat list" where
  "getPlayersInHand t =
     filter (\<lambda>i. \<not> folded (players t ! i) \<and> length (holeCards (players t ! i)) > 0)
       [0 ..< length (players t)]"

text \<open>
  The seat-search loop \<^verbatim>\<open>while (this.seats[seat] === null) seat = (seat + 1) % maxPlayers\<close>.
  It does not return when every seat it visits holds \<^verbatim>\<open>null\<close>: that is \<open>None\<close>.
\<close>

partial_function (option) whileNull :: "string option list \<Rightarrow> nat \<Rightarrow> nat \<Rightarrow> nat option" where
  "whileNull ss n seat =
     (if js_nth ss seat = Some None then whileNull ss n ((seat + 1) mod n) else Some seat)"

declare whileNull.simps [code]

text \<open>\<^verbatim>\<open>_moveDealer\<close>: a do-while, so the seat is stepped once before the first test.\<close>

definition moveDealer :: "table \<Rightarrow> table option" where
  "moveDealer t =
     (case whileNull (seats t) (maxPlayers t) ((dealerSeat t + 1) mod maxPlayers t) of
        None \<Rightarrow> None
      | Some s \<Rightarrow> Some (t\<lparr>dealerSeat := s\<rparr>))"

definition getSmallBlindSeat :: "table \<Rightarrow> nat option" where
  "getSmallBlindSeat t =
     whileNull (seats t) (maxPlayers t) ((dealerSeat t + 1) mod maxPlayers t)"

definition getBigBlindSeat :: "table \<Rightarrow> nat option" where
  "getBigBlindSeat t =
     (case getSmallBlindSeat t of
        None \<Rightarrow> None
      | Some seat \<Rightarrow> whileNull (seats t) (maxPlayers t) ((seat + 1) mod maxPlayers t))"

text \<open>\<^verbatim>\<open>this.players.get(this.seats[seat])\<close>.\<close>

definition playerAtSeat :: "table \<Rightarrow> nat \<Rightarrow> nat option" where
  "playerAtSeat t seat =
     (case js_nth (seats t) seat of
        Some (Some i) \<Rightarrow> players_get (players t) i
      | _ \<Rightarrow> None)"

text \<open>
  \<^verbatim>\<open>_postBlinds\<close>. Both amounts are computed before either stack is debited; the two
  debits are then made one after the other through the two references.
\<close>

definition postBlinds :: "table \<Rightarrow> result" where
  "postBlinds t =
     (case getSmallBlindSeat t of None \<Rightarrow> Hangs | Some sbSeat \<Rightarrow>
     (case getBigBlindSeat t of None \<Rightarrow> Hangs | Some bbSeat \<Rightarrow>
     (case playerAtSeat t sbSeat of None \<Rightarrow> Throws TypeError t | Some sb \<Rightarrow>
     (case playerAtSeat t bbSeat of None \<Rightarrow> Throws TypeError t | Some bb \<Rightarrow>
        (let sbAmount = min (smallBlind t) (chips (players t ! sb));
             bbAmount = min (bigBlind t) (chips (players t ! bb));
             ps1 = upd sb (\<lambda>p. p\<lparr>chips := chips p - sbAmount, p_currentBet := sbAmount,
                                  totalBetThisHand := sbAmount\<rparr>) (players t);
             ps2 = upd bb (\<lambda>p. p\<lparr>chips := chips p - bbAmount, p_currentBet := bbAmount,
                                  totalBetThisHand := bbAmount\<rparr>) ps1;
             ps3 = upd sb (\<lambda>p. if chips p = 0 then p\<lparr>allIn := True\<rparr> else p) ps2;
             ps4 = upd bb (\<lambda>p. if chips p = 0 then p\<lparr>allIn := True\<rparr> else p) ps3
         in Returns (logAction ''BLINDS''
              (t\<lparr>pot := pot t + sbAmount + bbAmount, players := ps4\<rparr>)))))))"

text \<open>
  \<open>n\<close> calls of \<^verbatim>\<open>this.deck.deal()\<close>: the cards in the order dealt. A throw carries the
  table as it is then (\<^verbatim>\<open>this.deck\<close> is \<^verbatim>\<open>null\<close> before the first hand).
\<close>

fun dealN :: "nat \<Rightarrow> table \<Rightarrow> (error \<times> table) + (card list \<times> table)" where
  "dealN 0 t = Inr ([], t)"
| "dealN (Suc n) t =
     (case deck t of
        None \<Rightarrow> Inl (TypeError, t)
      | Some d \<Rightarrow>
          (case deal d of
             Inl e \<Rightarrow> Inl (e, t)
           | Inr (c, d') \<Rightarrow>
               (case dealN n (t\<lparr>deck := Some d'\<rparr>) of
                  Inl x \<Rightarrow> Inl x
                | Inr (cs, t') \<Rightarrow> Inr (c # cs, t'))))"

text \<open>\<^verbatim>\<open>_dealHoleCards\<close>: the loop over the seat array; an empty string is falsy too.\<close>

fun dealHoleLoop :: "string option list \<Rightarrow> table \<Rightarrow> result" where
  "dealHoleLoop [] t = Returns t"
| "dealHoleLoop (None # ss) t = dealHoleLoop ss t"
| "dealHoleLoop (Some i # ss) t =
     (if i = [] then dealHoleLoop ss t
      else (case players_get (players t) i of
        None \<Rightarrow> Throws TypeError t
      | Some k \<Rightarrow>
          if chips (players t ! k) > 0 then
            (case dealN 2 t of
               Inl (e, t') \<Rightarrow> Throws e t'
             | Inr (cs, t') \<Rightarrow>
                 dealHoleLoop ss (t'\<lparr>players := upd k (\<lambda>p. p\<lparr>holeCards := cs\<rparr>) (players t')\<rparr>))
          else dealHoleLoop ss t))"

definition dealHoleCards :: "table \<Rightarrow> result" where
  "dealHoleCards t = dealHoleLoop (seats t) t"

text \<open>
  \<^verbatim>\<open>_setNextPlayer\<close>: the loop inspects at most \<open>maxPlayers\<close> seats and writes only
  \<open>currentPlayerSeat\<close>; \<open>nextSeatLoop\<close> is the loop with \<open>k\<close> iterations left, giving the
  seat found (\<open>None\<close> for \<^verbatim>\<open>null\<close>), or the \<^verbatim>\<open>TypeError\<close> of reading a missing record.
\<close>

fun nextSeatLoop :: "table \<Rightarrow> nat \<Rightarrow> nat \<Rightarrow> error + nat option" where
  "nextSeatLoop t seat 0 = Inr None"
| "nextSeatLoop t seat (Suc k) =
     (case js_nth (seats t) seat of
        Some (Some i) \<Rightarrow>
          if i = [] then nextSeatLoop t ((seat + 1) mod maxPlayers t) k
          else (case players_get (players t) i of
                  None \<Rightarrow> Inl TypeError
                | Some j \<Rightarrow>
                    if \<not> folded (players t ! j) \<and> \<not> allIn (players t ! j) then Inr (Some seat)
                    else nextSeatLoop t ((seat + 1) mod maxPlayers t) k)
      | _ \<Rightarrow> nextSeatLoop t ((seat + 1) mod maxPlayers t) k)"

definition setNextPlayer :: "table \<Rightarrow> nat \<Rightarrow> result" where
  "setNextPlayer t afterSeat =
     (case nextSeatLoop t ((afterSeat + 1) mod maxPlayers t) (maxPlayers t) of
        Inl e \<Rightarrow> Throws e t
      | Inr s \<Rightarrow> Returns (t\<lparr>currentPlayerSeat := s\<rparr>))"

definition validateAction :: "table \<Rightarrow> string \<Rightarrow> error option" where
  "validateAction t i =
     (if phase t = WAITING \<or> phase t = SHOWDOWN then Some NoActiveHand
      else if Some (indexOf (seats t) (Some i)) \<noteq> map_option int (currentPlayerSeat t)
        then Some OutOfTurn
      else None)"

text \<open>The rake of both award paths: \<^verbatim>\<open>Math.min(this.pot * this.rake, this.rakeMax)\<close>.\<close>

definition rakeOf :: "table \<Rightarrow> rat" where
  "rakeOf t = min (pot t * rake t) (rakeMax t)"

text \<open>\<^verbatim>\<open>completedHands.unshift(h)\<close>, then \<^verbatim>\<open>pop()\<close> when more than 20 are held.\<close>

definition pushCompleted :: "completedHand \<Rightarrow> table \<Rightarrow> table" where
  "pushCompleted h t =
     t\<lparr>completedHands :=
         (if length (h # completedHands t) > 20 then butlast (h # completedHands t)
          else h # completedHands t)\<rparr>"

text \<open>\<^verbatim>\<open>_awardPot\<close>, the uncontested win; \<open>w\<close> is the reference to the winner.\<close>

definition awardPot :: "table \<Rightarrow> nat \<Rightarrow> result" where
  "awardPot t w =
     (let rk = rakeOf t;
          winAmount = pot t - rk;
          t1 = t\<lparr>players := upd w (\<lambda>p. p\<lparr>chips := chips p + winAmount\<rparr>) (players t)\<rparr>;
          t2 = logAction ''WIN_UNCONTESTED'' t1;
          t3 = pushCompleted
                 \<lparr>c_handNumber = handNumber t2, c_winners = [moltbookId (players t2 ! w)],
                  c_pot = pot t2, c_uncontested = True\<rparr> t2
      in Returns (t3\<lparr>phase := SHOWDOWN\<rparr>))"

text \<open>
  \<^verbatim>\<open>_isBettingComplete\<close>: the loop over the players in the hand; \<open>None\<close> when the search
  for the big-blind seat does not return.
\<close>

fun bettingLoop :: "table \<Rightarrow> nat list \<Rightarrow> bool option" where
  "bettingLoop t [] = Some True"
| "bettingLoop t (i # is) =
     (if \<not> allIn (players t ! i) \<and> p_currentBet (players t ! i) < currentBet t then Some False
      else if \<not> allIn (players t ! i) \<and> lastAction (players t ! i) = None \<and> phase t = PREFLOP
        then (case getBigBlindSeat t of
                None \<Rightarrow> None
              | Some bbSeat \<Rightarrow>
                  if js_nth (seats t) bbSeat = Some (Some (p_id (players t ! i)))
                     \<and> p_currentBet (players t ! i) = bigBlind t
                  then Some False
                  else bettingLoop t is)
      else bettingLoop t is)"

definition isBettingComplete :: "table \<Rightarrow> bool option" where
  "isBettingComplete t = bettingLoop t (getPlayersInHand t)"

text \<open>
  \<^verbatim>\<open>_showdown\<close>. A result pairs the reference to a player with the hand evaluated; the hand
  name is used for the log only and is left out.
\<close>

fun evalResults :: "table \<Rightarrow> nat list \<Rightarrow> error + (nat \<times> hand) list" where
  "evalResults t [] = Inr []"
| "evalResults t (i # is) =
     (case evaluateHand (holeCards (players t ! i) @ communityCards t) of
        Inl e \<Rightarrow> Inl e
      | Inr None \<Rightarrow> Inl TypeError
      | Inr (Some h) \<Rightarrow>
          (case evalResults t is of
             Inl e \<Rightarrow> Inl e
           | Inr rs \<Rightarrow> Inr ((i, h) # rs)))"

text \<open>
  \<^verbatim>\<open>results.sort((a, b) => compareHands(b.hand, a.hand))\<close>, a stable sort: \<open>x\<close> goes after
  \<open>y\<close> exactly when the comparator is positive on \<open>(x, y)\<close>.
\<close>

fun insertResult :: "nat \<times> hand \<Rightarrow> (nat \<times> hand) list \<Rightarrow> (nat \<times> hand) list" where
  "insertResult x [] = [x]"
| "insertResult x (y # ys) =
     (if js_pos (compareHands (snd y) (snd x)) then y # insertResult x ys else x # y # ys)"

definition sortResults :: "(nat \<times> hand) list \<Rightarrow> (nat \<times> hand) list" where
  "sortResults rs = foldr insertResult rs []"

text \<open>The winners: the first result and the results after it that tie with it.\<close>

definition winnersOf :: "nat \<times> hand \<Rightarrow> (nat \<times> hand) list \<Rightarrow> (nat \<times> hand) list" where
  "winnersOf r0 rest = r0 # takeWhile (\<lambda>r. js_zero (compareHands (snd r) (snd r0))) rest"

definition creditWinners :: "rat \<Rightarrow> (nat \<times> hand) list \<Rightarrow> Player list \<Rightarrow> Player list" where
  "creditWinners winAmount ws ps =
     foldl (\<lambda>qs w. upd (fst w) (\<lambda>p. p\<lparr>chips := chips p + winAmount\<rparr>) qs) ps ws"

definition showdown :: "table \<Rightarrow> result" where
  "showdown t =
     (let t1 = t\<lparr>phase := SHOWDOWN\<rparr> in
      case evalResults t1 (getPlayersInHand t1) of
        Inl e \<Rightarrow> Throws e t1
      | Inr results \<Rightarrow>
          (case sortResults results of
             [] \<Rightarrow> Throws TypeError t1
           | r0 # rest \<Rightarrow>
               (let winners = winnersOf r0 rest;
                    rk = rakeOf t1;
                    potAfterRake = pot t1 - rk;
                    winAmount = of_int (floor (potAfterRake / of_nat (length winners)));
                    t2 = t1\<lparr>players := creditWinners winAmount winners (players t1)\<rparr>
                in case deck t2 of
                     None \<Rightarrow> Throws TypeError t2
                   | Some d \<Rightarrow>
                       Returns (pushCompleted
                         \<lparr>c_handNumber = handNumber t2,
                          c_winners = map (\<lambda>w. moltbookId (players t2 ! fst w)) winners,
                          c_pot = pot t2, c_uncontested = False\<rparr>
                         (logAction ''SHOWDOWN'' (t2\<lparr>deck := Some (snd (revealSalt d))\<rparr>))))))"

text \<open>
  The references to the players in the \<^verbatim>\<open>winners\<close> array that \<^verbatim>\<open>_showdown\<close> builds, and
  its \<^verbatim>\<open>winAmount\<close>, the floored share of the pot after rake.
\<close>

definition showdownWinners :: "table \<Rightarrow> nat list" where
  "showdownWinners t =
     (case evalResults t (getPlayersInHand t) of
        Inl e \<Rightarrow> []
      | Inr results \<Rightarrow>
          (case sortResults results of
             [] \<Rightarrow> []
           | r0 # rest \<Rightarrow> map fst (winnersOf r0 rest)))"


text \<open>The reset at the head of \<^verbatim>\<open>_advancePhase\<close>.\<close>

definition resetRound :: "table \<Rightarrow> table" where
  "resetRound t =
     t\<lparr>players := map (\<lambda>p. p\<lparr>p_currentBet := 0, lastAction := None\<rparr>) (players t),
       currentBet := 0, minRaise := bigBlind t\<rparr>"

text \<open>
  The \<^verbatim>\<open>switch\<close> of \<^verbatim>\<open>_advancePhase\<close> for the phases other than the river: the phase is
  written before the cards are dealt, and the log entry of turn and river reads
  \<^verbatim>\<open>communityCards[3]\<close> and \<^verbatim>\<open>communityCards[4]\<close>.
\<close>

definition dealPhase :: "table \<Rightarrow> result" where
  "dealPhase t =
     (case phase t of
        PREFLOP \<Rightarrow>
          (case dealN 3 (t\<lparr>phase := FLOP\<rparr>) of
             Inl (e, t') \<Rightarrow> Throws e t'
           | Inr (cs, t') \<Rightarrow> Returns (logAction ''FLOP'' (t'\<lparr>communityCards := cs\<rparr>)))
      | FLOP \<Rightarrow>
          (case dealN 1 (t\<lparr>phase := TURN\<rparr>) of
             Inl (e, t') \<Rightarrow> Throws e t'
           | Inr (cs, t') \<Rightarrow>
               if length (communityCards t' @ cs) \<le> 3
               then Throws TypeError (t'\<lparr>communityCards := communityCards t' @ cs\<rparr>)
               else Returns (logAction ''TURN'' (t'\<lparr>communityCards := communityCards t' @ cs\<rparr>)))
      | TURN \<Rightarrow>
          (case dealN 1 (t\<lparr>phase := RIVER\<rparr>) of
             Inl (e, t') \<Rightarrow> Throws e t'
           | Inr (cs, t') \<Rightarrow>
               if length (communityCards t' @ cs) \<le> 4
               then Throws TypeError (t'\<lparr>communityCards := communityCards t' @ cs\<rparr>)
               else Returns (logAction ''RIVER'' (t'\<lparr>communityCards := communityCards t' @ cs\<rparr>)))
      | _ \<Rightarrow> Returns t)"

definition canAct :: "table \<Rightarrow> nat list" where
  "canAct t = filter (\<lambda>i. \<not> allIn (players t ! i)) (getPlayersInHand t)"

fun phaseRank :: "phase \<Rightarrow> nat" where
  "phaseRank PREFLOP = 3"
| "phaseRank FLOP = 2"
| "phaseRank TURN = 1"
| "phaseRank _ = 0"

text \<open>
  \<^verbatim>\<open>_advancePhase\<close>. It calls itself while at most one player can act. Entered in phase
  WAITING or SHOWDOWN the \<^verbatim>\<open>switch\<close> matches no case, the phase stays, and the
  self-call would repeat without end: the call stack overflows, a \<^verbatim>\<open>RangeError\<close>.
\<close>

function advancePhase :: "table \<Rightarrow> result" where
  "advancePhase t =
     (if phase (resetRound t) = RIVER then showdown (resetRound t)
      else (case dealPhase (resetRound t) of
        Returns t2 \<Rightarrow>
          (case setNextPlayer t2 (dealerSeat t2) of
             Returns t3 \<Rightarrow>
               if length (canAct t3) \<le> 1 then
                 (if phase t = WAITING \<or> phase t = SHOWDOWN then Throws RangeError t3
                  else advancePhase t3)
               else Returns t3
           | Throws e t' \<Rightarrow> Throws e t'
           | Hangs \<Rightarrow> Hangs
           | NotNumeric \<Rightarrow> NotNumeric)
      | Throws e t' \<Rightarrow> Throws e t'
      | Hangs \<Rightarrow> Hangs
      | NotNumeric \<Rightarrow> NotNumeric))"
  by pat_completeness auto
termination
proof (relation "measure (\<lambda>t. phaseRank (phase t))")
  show "wf (measure (\<lambda>t. phaseRank (phase t)))" by simp
next
  fix t t2 t3
  assume nr: "phase (resetRound t) \<noteq> RIVER"
    and dp: "dealPhase (resetRound t) = Returns t2"
    and sn: "setNextPlayer t2 (dealerSeat t2) = Returns t3"
    and act: "\<not> (phase t = WAITING \<or> phase t = SHOWDOWN)"
  have dealN_phase: "\<And>u cs u'. dealN n u = Inr (cs, u') \<Longrightarrow> phase u' = phase u" for n
  proof (induction n)
    case 0
    then show ?case by simp
  next
    case (Suc n)
    then show ?case
      by (fastforce split: option.splits sum.splits prod.splits)
  qed
  have p1: "phase (resetRound t) = phase t" by (simp add: resetRound_def)
  have p3: "phase t3 = phase t2"
    using sn by (auto simp: setNextPlayer_def split: sum.splits)
  have "phaseRank (phase t2) < phaseRank (phase t)"
    using dp nr act p1
    by (cases "phase t")
       (auto simp: dealPhase_def logAction_def simp del: dealN.simps
             split: sum.splits prod.splits if_splits dest!: dealN_phase)
  then show "(t3, t) \<in> measure (\<lambda>t. phaseRank (phase t))"
    using p3 by simp
qed

declare advancePhase.simps [simp del]

text \<open>
  \<^verbatim>\<open>_advanceGame\<close>. \<^verbatim>\<open>_setNextPlayer(this.currentPlayerSeat)\<close> adds one to its argument,
  so \<^verbatim>\<open>null\<close> counts as 0 there.
\<close>

definition advanceGame :: "table \<Rightarrow> result" where
  "advanceGame t =
     (if length (getPlayersInHand t) = 1 then awardPot t (getPlayersInHand t ! 0)
      else (case isBettingComplete t of
        None \<Rightarrow> Hangs
      | Some True \<Rightarrow> advancePhase t
      | Some False \<Rightarrow>
          setNextPlayer t (case currentPlayerSeat t of None \<Rightarrow> 0 | Some s \<Rightarrow> s)))"

text \<open>
  \<^verbatim>\<open>startHand\<close>; \<open>d\<close> is the deck that \<^verbatim>\<open>new SecureDeck()\<close> yields (its shuffle and salt
  are random).
\<close>

definition startHand :: "table \<Rightarrow> SecureDeck \<Rightarrow> result" where
  "startHand t d =
     (if length (getActivePlayers t) < 2 then Throws NotEnoughPlayers t
      else (case moveDealer
                  (t\<lparr>handNumber := handNumber t + 1, deck := Some d,
                     deckCommitment := Some (getCommitment d), communityCards := [],
                     pot := 0, sidePots := [], phase := PREFLOP, currentBet := bigBlind t,
                     minRaise := bigBlind t, handHistory := [],
                     players := map reset (players t)\<rparr>) of
        None \<Rightarrow> Hangs
      | Some t2 \<Rightarrow>
          (case postBlinds t2 of
             Returns t3 \<Rightarrow>
               (case dealHoleCards t3 of
                  Returns t4 \<Rightarrow>
                    (case getBigBlindSeat t4 of
                       None \<Rightarrow> Hangs
                     | Some bbSeat \<Rightarrow>
                         (case setNextPlayer t4 bbSeat of
                            Returns t5 \<Rightarrow> Returns (logAction ''HAND_START'' t5)
                          | Throws e t' \<Rightarrow> Throws e t'
                          | Hangs \<Rightarrow> Hangs
                          | NotNumeric \<Rightarrow> NotNumeric))
                | Throws e t' \<Rightarrow> Throws e t'
                | Hangs \<Rightarrow> Hangs
                | NotNumeric \<Rightarrow> NotNumeric)
           | Throws e t' \<Rightarrow> Throws e t'
           | Hangs \<Rightarrow> Hangs
           | NotNumeric \<Rightarrow> NotNumeric)))"

text \<open>
  The player actions. Each validates, looks the player record up (a missing record makes the
  first property access a \<^verbatim>\<open>TypeError\<close>), moves chips, and ends in \<^verbatim>\<open>_advanceGame\<close>.
  \<open>foldMove\<close>, \<open>checkMove\<close>, \<open>callMove\<close> and \<open>raiseMove\<close> are the statements between the
  checks and the final \<^verbatim>\<open>return this._advanceGame()\<close>, on the player behind reference \<open>k\<close>.
\<close>

definition foldMove :: "table \<Rightarrow> nat \<Rightarrow> table" where
  "foldMove t k =
     logAction ''FOLD''
       (t\<lparr>players := upd k (\<lambda>p. p\<lparr>folded := True, lastAction := Some ''fold''\<rparr>) (players t)\<rparr>)"

definition fold_act :: "table \<Rightarrow> string \<Rightarrow> result" where
  "fold_act t i =
     (case validateAction t i of
        Some e \<Rightarrow> Throws e t
      | None \<Rightarrow>
          (case players_get (players t) i of
             None \<Rightarrow> Throws TypeError t
           | Some k \<Rightarrow> advanceGame (foldMove t k)))"

definition checkMove :: "table \<Rightarrow> nat \<Rightarrow> table" where
  "checkMove t k =
     logAction ''CHECK''
       (t\<lparr>players := upd k (\<lambda>p. p\<lparr>lastAction := Some ''check''\<rparr>) (players t)\<rparr>)"

definition check :: "table \<Rightarrow> string \<Rightarrow> result" where
  "check t i =
     (case validateAction t i of
        Some e \<Rightarrow> Throws e t
      | None \<Rightarrow>
          (case players_get (players t) i of
             None \<Rightarrow> Throws TypeError t
           | Some k \<Rightarrow>
               if p_currentBet (players t ! k) < currentBet t then Throws CannotCheck t
               else advanceGame (checkMove t k)))"

definition callMove :: "table \<Rightarrow> nat \<Rightarrow> table" where
  "callMove t k =
     (let toCall = currentBet t - p_currentBet (players t ! k);
          actualCall = min toCall (chips (players t ! k));
          ps1 = upd k (\<lambda>p. p\<lparr>chips := chips p - actualCall,
                              p_currentBet := p_currentBet p + actualCall,
                              totalBetThisHand := totalBetThisHand p + actualCall\<rparr>) (players t);
          ps2 = upd k (\<lambda>p. if chips p = 0 then p\<lparr>allIn := True\<rparr> else p) ps1;
          ps3 = upd k (\<lambda>p. p\<lparr>lastAction := Some ''call''\<rparr>) ps2
      in logAction ''CALL'' (t\<lparr>players := ps3, pot := pot t + actualCall\<rparr>))"

definition call :: "table \<Rightarrow> string \<Rightarrow> result" where
  "call t i =
     (case validateAction t i of
        Some e \<Rightarrow> Throws e t
      | None \<Rightarrow>
          (case players_get (players t) i of
             None \<Rightarrow> Throws TypeError t
           | Some k \<Rightarrow>
               if currentBet t - p_currentBet (players t ! k) \<le> 0 then Throws NothingToCall t
               else advanceGame (callMove t k)))"

definition raiseMove :: "table \<Rightarrow> string \<Rightarrow> nat \<Rightarrow> rat \<Rightarrow> table" where
  "raiseMove t i k amount =
     (let toCall = currentBet t - p_currentBet (players t ! k);
          raiseAmount = amount - toCall;
          ps1 = upd k (\<lambda>p. p\<lparr>chips := chips p - amount,
                              p_currentBet := p_currentBet p + amount,
                              totalBetThisHand := totalBetThisHand p + amount\<rparr>) (players t);
          ps2 = upd k (\<lambda>p. if chips p = 0 then p\<lparr>allIn := True\<rparr> else p) ps1;
          ps3 = upd k (\<lambda>p. p\<lparr>lastAction := Some ''raise''\<rparr>) ps2
      in logAction ''RAISE''
           (t\<lparr>players := ps3, pot := pot t + amount, currentBet := p_currentBet (ps1 ! k),
              minRaise := max (minRaise t) raiseAmount,
              lastRaiserSeat := Some (indexOf (seats t) (Some i))\<rparr>))"

text \<open>
  \<^verbatim>\<open>raise\<close>. The two checks compare numbers, and every comparison with \<^verbatim>\<open>NaN\<close> is false:
  an amount of the \<open>NaN\<close> kind passes both and is written into the player's stack and bet,
  the pot and the table's current bet. A numeric string is checked as its number and then
  concatenated by \<^verbatim>\<open>+=\<close> to the bet and the pot. Positive infinity exceeds every stack;
  negative infinity is below every minimum raise and every stack.
\<close>

definition raise :: "table \<Rightarrow> string \<Rightarrow> amount \<Rightarrow> result" where
  "raise t i amount =
     (case validateAction t i of
        Some e \<Rightarrow> Throws e t
      | None \<Rightarrow>
          (case players_get (players t) i of
             None \<Rightarrow> Throws TypeError t
           | Some k \<Rightarrow>
               (case amount of
                  Num a \<Rightarrow>
                    if a - (currentBet t - p_currentBet (players t ! k)) < minRaise t
                       \<and> a < chips (players t ! k)
                    then Throws BelowMinRaise t
                    else if a > chips (players t ! k) then Throws InsufficientChips t
                    else advanceGame (raiseMove t i k a)
                | NumStr a \<Rightarrow>
                    if a - (currentBet t - p_currentBet (players t ! k)) < minRaise t
                       \<and> a < chips (players t ! k)
                    then Throws BelowMinRaise t
                    else if a > chips (players t ! k) then Throws InsufficientChips t
                    else NotNumeric
                | NaN \<Rightarrow> NotNumeric
                | PosInf \<Rightarrow> Throws InsufficientChips t
                | NegInf \<Rightarrow> Throws BelowMinRaise t)))"

text \<open>\<^verbatim>\<open>allIn\<close> reads the player's chips before anything is validated.\<close>

definition allIn_act :: "table \<Rightarrow> string \<Rightarrow> result" where
  "allIn_act t i =
     (case players_get (players t) i of
        None \<Rightarrow> Throws TypeError t
      | Some k \<Rightarrow> raise t i (Num (chips (players t ! k))))"

text \<open>The quantity of the conservation property: all stacks plus the pot.\<close>

definition chipsTotal :: "table \<Rightarrow> rat" where
  "chipsTotal t = sum_list (map chips (players t))"

definition isInteger :: "rat \<Rightarrow> bool" where
  "isInteger x = (of_int (floor x) = x)"

text \<open>The error kinds that the six operations raise from their own checks.\<close>

fun validationError :: "error \<Rightarrow> bool" where
  "validationError InvalidBuyIn = True"
| "validationError TableFull = True"
| "validationError NotEnoughPlayers = True"
| "validationError OutOfTurn = True"
| "validationError NoActiveHand = True"
| "validationError CannotCheck = True"
| "validationError NothingToCall = True"
| "validationError BelowMinRaise = True"
| "validationError InsufficientChips = True"
| "validationError _ = False"

text \<open>
  The number of kickers that \<^verbatim>\<open>evaluate5Cards\<close> attaches to each category (used in the
  proofs only).
\<close>

fun kickerCount :: "int \<Rightarrow> nat" where
  "kickerCount r =
     (if r = FOUR_OF_A_KIND \<or> r = FULL_HOUSE then 2
      else if r = STRAIGHT then 1
      else if r = THREE_OF_A_KIND \<or> r = TWO_PAIR then 3
      else if r = PAIR then 4
      else 5)"

definition wellFormed :: "hand \<Rightarrow> bool" where
  "wellFormed h = (length (kickers h) = kickerCount (ranking h))"

text \<open>The order that \<^verbatim>\<open>compareHands\<close> induces: \<open>a\<close> is at most \<open>b\<close>.\<close>

definition handLe :: "hand \<Rightarrow> hand \<Rightarrow> bool" where
  "handLe a b = (case compareHands a b of None \<Rightarrow> False | Some v \<Rightarrow> v \<le> 0)"

definition sameHand :: "hand \<Rightarrow> hand \<Rightarrow> bool" where
  "sameHand a b = (ranking a = ranking b \<and> kickers a = kickers b)"

text \<open>A-2-3-4-5: five cards whose ranks are exactly ace, two, three, four and five.\<close>

definition isWheel :: "card list \<Rightarrow> bool" where
  "isWheel cs = (length cs = 5 \<and> set (map rank_of cs) = {RA, R2, R3, R4, R5})"

definition sameSuit :: "card list \<Rightarrow> bool" where
  "sameSuit cs = (\<forall>c \<in> set cs. suit_of c = suit_of (hd cs))"

subsection \<open>Concrete tables and decks for evaluation\<close>

text \<open>
  \<open>demoHash\<close> and \<open>demoRnd\<close> stand for the hash and the random source where a concrete deck
  is evaluated; the general theorems hold for every hash and every source.
\<close>

definition demoHash :: "string \<Rightarrow> string" where
  "demoHash s = take 8 s"

definition demoRnd :: "nat \<Rightarrow> nat" where
  "demoRnd i = 40 * (i mod 7) + 13"

definition demoDeck :: SecureDeck where
  "demoDeck = new_SecureDeck demoHash ''00'' demoRnd"

text \<open>The table an outcome leaves.\<close>

fun tableOf :: "result \<Rightarrow> table" where
  "tableOf (Returns t) = t"
| "tableOf (Throws e t) = t"
| "tableOf Hangs = default_Table"
| "tableOf NotNumeric = default_Table"

text \<open>
  Heads-up on the default table: alice and bob buy in for 400 each and a hand starts.
  Alice (seat 0) posts the small blind 10, bob (seat 1) the big blind 20, alice is to act.
\<close>

definition headsUp :: table where
  "headsUp =
     tableOf (startHand
       (tableOf (addPlayer
          (tableOf (addPlayer default_Table ''alice'' ''w1'' 400 None ''1''))
          ''bob'' ''w2'' 400 None ''2''))
       demoDeck)"

text \<open>
  Three players on the default table: ann (2000, seat 0), ben (2000, seat 1) and cy
  (400, seat 2); a hand starts. Ben has the button, cy posts the small blind 10, ann the
  big blind 20, and ben is to act.
\<close>

definition threeWay :: table where
  "threeWay =
     tableOf (startHand
       (tableOf (addPlayer
          (tableOf (addPlayer
             (tableOf (addPlayer default_Table ''ann'' ''w1'' 2000 None ''1''))
             ''ben'' ''w2'' 2000 None ''2''))
          ''cy'' ''w3'' 400 None ''3''))
       demoDeck)"

text \<open>Ben has raised to 1000 in all; cy, with 390 left behind a bet of 10, is to act.\<close>

definition threeWayRaised :: table where
  "threeWayRaised = tableOf (raise threeWay ''ben-2'' (Num 1000))"


section \<open>The sealed deck: commitment and reveal\<close>

lemma deal_Inr:
  "deal d = Inr (c, d') \<Longrightarrow>
     cards d = cards d' @ [c] \<and> salt d' = salt d \<and> commitment d' = commitment d"
  by (auto simp: deal_def split: if_splits)

lemma deals_Inr:
  "deals n d = Inr (ds, d') \<Longrightarrow>
     cards d = cards d' @ rev ds \<and> salt d' = salt d \<and> commitment d' = commitment d"
proof (induction n arbitrary: d ds)
  case 0
  then show ?case by simp
next
  case (Suc n)
  from Suc.prems obtain c d1 cs where
    d1: "deal d = Inr (c, d1)" and rest: "deals n d1 = Inr (cs, d')" and ds: "ds = c # cs"
    by (auto split: sum.splits prod.splits)
  from Suc.IH[OF rest] deal_Inr[OF d1] ds show ?case by simp
qed

lemma deals_total:
  "n \<le> length (cards d) \<Longrightarrow> \<exists>ds d'. deals n d = Inr (ds, d')"
proof (induction n arbitrary: d)
  case 0
  then show ?case by simp
next
  case (Suc n)
  then have ne: "cards d \<noteq> []" by auto
  let ?d1 = "d\<lparr>cards := butlast (cards d)\<rparr>"
  have d1: "deal d = Inr (last (cards d), ?d1)" using ne by (simp add: deal_def)
  have "n \<le> length (cards ?d1)" using Suc.prems by simp
  from Suc.IH[OF this] obtain ds d' where "deals n ?d1 = Inr (ds, d')" by blast
  then show ?case using d1 by simp
qed

lemma length_swap [simp]: "length (swap i j xs) = length xs"
  by (simp add: swap_def)

lemma mset_swap_positions:
  "i < length xs \<Longrightarrow> j < length xs \<Longrightarrow> mset (swap i j xs) = mset xs"
  unfolding swap_def by (simp add: mset_swap)

lemma shuffle_loop_props:
  "k < length xs \<Longrightarrow>
     length (shuffle_loop k rnd xs) = length xs \<and> mset (shuffle_loop k rnd xs) = mset xs"
proof (induction k arbitrary: xs)
  case 0
  then show ?case by simp
next
  case (Suc k)
  have j: "rnd (Suc k) mod (Suc k + 1) < length xs"
  proof -
    have "rnd (Suc k) mod (Suc k + 1) < Suc k + 1" by (rule mod_less_divisor) simp
    then show ?thesis using Suc.prems by linarith
  qed
  have "k < length (swap (Suc k) (rnd (Suc k) mod (Suc k + 1)) xs)" using Suc.prems by simp
  from Suc.IH[OF this] show ?case using Suc.prems j by (simp add: mset_swap_positions)
qed

lemma length_buildDeck: "length buildDeck = 52"
  by (simp add: buildDeck_def SUITS_def RANKS_def)

lemma new_SecureDeck_cards:
  "length (cards (new_SecureDeck H s rnd)) = 52
   \<and> mset (cards (new_SecureDeck H s rnd)) = mset buildDeck"
  using shuffle_loop_props[of 51 buildDeck rnd]
  by (simp add: new_SecureDeck_def generateCommitment_def shuffle_def length_buildDeck)

lemma new_SecureDeck_commitment:
  "commitment (new_SecureDeck H s rnd) =
     H (join '','' (map toString (cards (new_SecureDeck H s rnd)))
        @ salt (new_SecureDeck H s rnd))"
  by (simp add: new_SecureDeck_def generateCommitment_def)

text \<open>Every run of at most 52 deals from a fresh deck succeeds.\<close>

lemma deals_always_succeed:
  "n \<le> 52 \<Longrightarrow> \<exists>dealt d. deals n (new_SecureDeck H s rnd) = Inr (dealt, d)"
  by (rule deals_total) (simp add: new_SecureDeck_cards)

text \<open>
  Claim C2. A fresh deck holds a permutation of the 52 cards, and its commitment is the hash
  of the comma-joined card strings of that ordering followed by the salt. After any run of
  \<^verbatim>\<open>deal()\<close> calls, \<^verbatim>\<open>revealSalt()\<close> returns that same commitment and the same salt, and
  the original ordering is the remaining cards followed by the dealt cards in reverse order
  of dealing (cards are popped from the end), so the commitment is recomputed from the
  reveal data and the dealt cards.
\<close>

theorem commitment_verifiable:
  assumes "deals n (new_SecureDeck H s rnd) = Inr (dealt, d)"
  shows "r_commitment (fst (revealSalt d)) = commitment (new_SecureDeck H s rnd)
       \<and> r_commitment (fst (revealSalt d)) =
           H (join '','' (r_remainingCards (fst (revealSalt d)) @ rev (map toString dealt))
              @ r_salt (fst (revealSalt d)))
       \<and> r_remainingCards (fst (revealSalt d)) @ rev (map toString dealt) =
           map toString (cards (new_SecureDeck H s rnd))
       \<and> length (cards (new_SecureDeck H s rnd)) = 52
       \<and> mset (cards (new_SecureDeck H s rnd)) = mset buildDeck"
proof -
  from deals_Inr[OF assms] have
    c: "cards (new_SecureDeck H s rnd) = cards d @ rev dealt"
    and s: "salt d = salt (new_SecureDeck H s rnd)"
    and k: "commitment d = commitment (new_SecureDeck H s rnd)" by auto
  have r: "r_remainingCards (fst (revealSalt d)) @ rev (map toString dealt) =
           map toString (cards (new_SecureDeck H s rnd))"
    by (simp add: revealSalt_def c rev_map)
  have "r_commitment (fst (revealSalt d)) = commitment (new_SecureDeck H s rnd)"
    by (simp add: revealSalt_def k)
  moreover have "r_salt (fst (revealSalt d)) = salt (new_SecureDeck H s rnd)"
    by (simp add: revealSalt_def s)
  ultimately show ?thesis
    using r new_SecureDeck_commitment[of H s rnd] new_SecureDeck_cards[of H s rnd] by simp
qed

theorem commitment_verifiable_witness:
  "deals 2 (new_SecureDeck demoHash ''00'' demoRnd)
     = Inr ([Card R4 Clubs, Card R4 Spades],
            snd (projr (deals 2 (new_SecureDeck demoHash ''00'' demoRnd))))
   \<and> r_commitment (fst (revealSalt (snd (projr (deals 2 (new_SecureDeck demoHash ''00'' demoRnd)))))) =
       demoHash
         (join '',''
            (r_remainingCards
               (fst (revealSalt (snd (projr (deals 2 (new_SecureDeck demoHash ''00'' demoRnd))))))
             @ rev (map toString [Card R4 Clubs, Card R4 Spades]))
          @ r_salt (fst (revealSalt (snd (projr (deals 2 (new_SecureDeck demoHash ''00'' demoRnd)))))))
   \<and> length (r_remainingCards
         (fst (revealSalt (snd (projr (deals 2 (new_SecureDeck demoHash ''00'' demoRnd))))))) = 50"
proof -
  have h: "deals 2 (new_SecureDeck demoHash ''00'' demoRnd)
           = Inr ([Card R4 Clubs, Card R4 Spades],
                  snd (projr (deals 2 (new_SecureDeck demoHash ''00'' demoRnd))))"
    by code_simp
  have l: "length (r_remainingCards
         (fst (revealSalt (snd (projr (deals 2 (new_SecureDeck demoHash ''00'' demoRnd))))))) = 50"
    by code_simp
  from commitment_verifiable[OF h] h l show ?thesis by blast
qed

text \<open>
  Claim C9, as amended. \<^verbatim>\<open>revealSalt()\<close> returns the salt, the original commitment and
  the still-undealt cards, and sets the \<open>revealed\<close> flag. The flag is never read: a second
  call on the same deck is not rejected and returns the same reveal data again.
\<close>

theorem revealSalt_repeatable:
  "fst (revealSalt d) =
     \<lparr>r_salt = salt d, r_commitment = commitment d,
      r_remainingCards = map toString (cards d)\<rparr>
   \<and> snd (revealSalt d) = d\<lparr>revealed := True\<rparr>
   \<and> fst (revealSalt (snd (revealSalt d))) = fst (revealSalt d)"
  by (simp add: revealSalt_def)

text \<open>
  The claim as stated fails on a fresh deck: after a first call has set the flag, the second
  call still returns the reveal data, the salt and all 52 remaining cards among them.
\<close>

theorem revealSalt_second_call_counterexample:
  "revealed (snd (revealSalt demoDeck))
   \<and> fst (revealSalt (snd (revealSalt demoDeck))) = fst (revealSalt demoDeck)
   \<and> r_salt (fst (revealSalt (snd (revealSalt demoDeck)))) = ''00''
   \<and> length (r_remainingCards (fst (revealSalt (snd (revealSalt demoDeck))))) = 52"
  by (simp add: revealSalt_def demoDeck_def new_SecureDeck_def generateCommitment_def
        shuffle_def length_buildDeck shuffle_loop_props)

section \<open>Validation failures of the table operations\<close>

lemma indexWhere_None: "(\<forall>y \<in> set xs. \<not> P y) \<Longrightarrow> indexWhere P xs = None"
  by (induction xs) auto

lemma indexOf_absent: "x \<notin> set xs \<Longrightarrow> indexOf xs x = - 1"
proof -
  assume "x \<notin> set xs"
  then have "indexWhere (\<lambda>y. y = x) xs = None" by (intro indexWhere_None) auto
  then show ?thesis by (simp add: indexOf_def)
qed

lemma validateAction_inactive:
  "phase t = WAITING \<or> phase t = SHOWDOWN \<Longrightarrow> validateAction t i = Some NoActiveHand"
  by (auto simp: validateAction_def)

lemma validateAction_unseated:
  "phase t \<noteq> WAITING \<Longrightarrow> phase t \<noteq> SHOWDOWN \<Longrightarrow> Some i \<notin> set (seats t) \<Longrightarrow>
     validateAction t i = Some OutOfTurn"
  by (cases "currentPlayerSeat t") (auto simp: validateAction_def indexOf_absent)

text \<open>
  Claim C10. In phase WAITING or SHOWDOWN each of fold, check, call and raise throws
  \<open>NoActiveHand\<close>; in an active phase, called with a player id that no seat holds, each throws
  \<open>OutOfTurn\<close>. Both are thrown by the validation, with the table unchanged, before the
  player record is looked up: the outcome is never the \<open>TypeError\<close> of a missing record.
\<close>

theorem actions_reject_before_lookup:
  "(phase t = WAITING \<or> phase t = SHOWDOWN \<longrightarrow>
       fold_act t i = Throws NoActiveHand t \<and> check t i = Throws NoActiveHand t
     \<and> call t i = Throws NoActiveHand t \<and> raise t i amount = Throws NoActiveHand t)
   \<and> (phase t \<noteq> WAITING \<and> phase t \<noteq> SHOWDOWN \<and> Some i \<notin> set (seats t) \<longrightarrow>
       fold_act t i = Throws OutOfTurn t \<and> check t i = Throws OutOfTurn t
     \<and> call t i = Throws OutOfTurn t \<and> raise t i amount = Throws OutOfTurn t)"
  by (auto simp: fold_act_def check_def call_def raise_def
      validateAction_inactive validateAction_unseated)

theorem actions_reject_before_lookup_witness:
  "phase default_Table = WAITING
   \<and> fold_act default_Table ''alice-1'' = Throws NoActiveHand default_Table
   \<and> raise default_Table ''alice-1'' (Num 40) = Throws NoActiveHand default_Table
   \<and> phase headsUp \<noteq> WAITING \<and> phase headsUp \<noteq> SHOWDOWN
   \<and> Some ''eve-9'' \<notin> set (seats headsUp)
   \<and> fold_act headsUp ''eve-9'' = Throws OutOfTurn headsUp
   \<and> check headsUp ''eve-9'' = Throws OutOfTurn headsUp
   \<and> call headsUp ''eve-9'' = Throws OutOfTurn headsUp
   \<and> raise headsUp ''eve-9'' (Num 40) = Throws OutOfTurn headsUp"
proof -
  have a: "phase default_Table = WAITING" by code_simp
  have b: "phase headsUp \<noteq> WAITING \<and> phase headsUp \<noteq> SHOWDOWN
           \<and> Some ''eve-9'' \<notin> set (seats headsUp)" by code_simp
  show ?thesis
    using a b actions_reject_before_lookup[of default_Table "''alice-1''" "Num 40"]
      actions_reject_before_lookup[of headsUp "''eve-9''" "Num 40"]
    by blast
qed





lemma nextSeatLoop_err: "nextSeatLoop t s k = Inl e \<Longrightarrow> e = TypeError"
  by (induction k arbitrary: s) (auto split: option.splits if_splits)

lemma setNextPlayer_throw: "setNextPlayer t a = Throws e t' \<Longrightarrow> e = TypeError"
  by (auto simp: setNextPlayer_def split: sum.splits dest: nextSeatLoop_err)

lemma dealN_err: "dealN n t = Inl (e, t') \<Longrightarrow> e = TypeError \<or> e = EmptyDeck"
proof (induction n arbitrary: t)
  case 0
  then show ?case by simp
next
  case (Suc n)
  then show ?case
    by (auto simp: deal_def split: option.splits sum.splits prod.splits if_splits)
qed

lemma dealPhase_throw: "dealPhase t = Throws e t' \<Longrightarrow> e = TypeError \<or> e = EmptyDeck"
  by (cases "phase t")
     (auto simp: dealPhase_def simp del: dealN.simps
           split: sum.splits prod.splits if_splits dest: dealN_err)

lemma evalResults_err: "evalResults t js = Inl e \<Longrightarrow> e = NeedFiveCards \<or> e = TypeError"
proof (induction js)
  case Nil
  then show ?case by simp
next
  case (Cons j js)
  then show ?case
    by (auto simp: evaluateHand_def split: sum.splits option.splits if_splits)
qed

lemma showdown_throw: "showdown t = Throws e t' \<Longrightarrow> e = NeedFiveCards \<or> e = TypeError"
  by (auto simp: showdown_def Let_def split: sum.splits list.splits option.splits
           dest: evalResults_err)

lemma advancePhase_throw: "advancePhase t = Throws e t' \<Longrightarrow> \<not> validationError e"
proof (induction t rule: advancePhase.induct)
  case (1 t)
  show ?case
  proof (cases "phase (resetRound t) = RIVER")
    case True
    with "1.prems" have "showdown (resetRound t) = Throws e t'"
      by (simp add: advancePhase.simps[of t])
    from showdown_throw[OF this] show ?thesis by auto
  next
    case nr: False
    show ?thesis
    proof (cases "dealPhase (resetRound t)")
      case (Returns t2)
      show ?thesis
      proof (cases "setNextPlayer t2 (dealerSeat t2)")
        case r3: (Returns t3)
        show ?thesis
        proof (cases "length (canAct t3) \<le> 1 \<and> \<not> (phase t = WAITING \<or> phase t = SHOWDOWN)")
          case True
          then have "advancePhase t3 = Throws e t'"
            using "1.prems" nr Returns r3 by (simp add: advancePhase.simps[of t])
          with "1.IH"[OF nr Returns r3] True show ?thesis by blast
        next
          case False
          then show ?thesis
            using "1.prems" nr Returns r3
            by (auto simp: advancePhase.simps[of t] split: if_splits)
        qed
      next
        case (Throws e2 t2')
        then show ?thesis
          using "1.prems" nr Returns setNextPlayer_throw[OF Throws]
          by (auto simp: advancePhase.simps[of t])
      next
        case Hangs
        then show ?thesis
          using "1.prems" nr Returns by (simp add: advancePhase.simps[of t])
      next
        case NotNumeric
        then show ?thesis
          using "1.prems" nr Returns by (simp add: advancePhase.simps[of t])
      qed
    next
      case (Throws e2 t2')
      then show ?thesis
        using "1.prems" nr dealPhase_throw[OF Throws]
        by (auto simp: advancePhase.simps[of t])
    next
      case Hangs
      then show ?thesis
        using "1.prems" nr by (simp add: advancePhase.simps[of t])
    next
      case NotNumeric
      then show ?thesis
        using "1.prems" nr by (simp add: advancePhase.simps[of t])
    qed
  qed
qed

lemma advanceGame_throw: "advanceGame t = Throws e t' \<Longrightarrow> \<not> validationError e"
  by (auto simp: advanceGame_def awardPot_def Let_def
           split: if_splits option.splits bool.splits
           dest: advancePhase_throw setNextPlayer_throw)

lemma postBlinds_throw: "postBlinds t = Throws e t' \<Longrightarrow> e = TypeError"
  by (auto simp: postBlinds_def Let_def split: option.splits)

lemma dealHoleLoop_throw:
  "dealHoleLoop ss t = Throws e t' \<Longrightarrow> e = TypeError \<or> e = EmptyDeck"
proof (induction ss t rule: dealHoleLoop.induct)
  case (1 t)
  then show ?case by simp
next
  case (2 ss t)
  then show ?case by simp
next
  case (3 i ss t)
  then show ?case
    by (auto simp del: dealN.simps split: if_splits option.splits sum.splits prod.splits
             dest: dealN_err)
qed

lemma startHand_throw:
  "startHand t d = Throws e t' \<Longrightarrow> validationError e \<Longrightarrow> t' = t"
  by (auto simp: startHand_def dealHoleCards_def
           split: if_splits option.splits result.splits
           dest: postBlinds_throw dealHoleLoop_throw setNextPlayer_throw)

text \<open>
  Claim C3. Whenever addPlayer, startHand, fold, check, call or raise throws one of the
  validation errors (InvalidBuyIn, TableFull, NotEnoughPlayers, OutOfTurn, NoActiveHand,
  CannotCheck, NothingToCall, BelowMinRaise, InsufficientChips), the table at the throw is
  the table before the call: every field is unchanged.
\<close>

theorem validation_failures_leave_state:
  assumes "validationError e"
  shows "(addPlayer t m w buyIn preferredSeat now = Throws e t' \<longrightarrow> t' = t)
       \<and> (startHand t d = Throws e t' \<longrightarrow> t' = t)
       \<and> (fold_act t i = Throws e t' \<longrightarrow> t' = t)
       \<and> (check t i = Throws e t' \<longrightarrow> t' = t)
       \<and> (call t i = Throws e t' \<longrightarrow> t' = t)
       \<and> (raise t i amount = Throws e t' \<longrightarrow> t' = t)"
proof -
  have a: "addPlayer t m w buyIn preferredSeat now = Throws e t' \<longrightarrow> t' = t"
    by (auto simp: addPlayer_def split: if_splits option.splits)
  have s: "startHand t d = Throws e t' \<longrightarrow> t' = t"
    using assms startHand_throw by blast
  have f: "fold_act t i = Throws e t' \<longrightarrow> t' = t"
    using assms by (auto simp: fold_act_def split: option.splits dest: advanceGame_throw)
  have c: "check t i = Throws e t' \<longrightarrow> t' = t"
    using assms by (auto simp: check_def split: option.splits if_splits dest: advanceGame_throw)
  have k: "call t i = Throws e t' \<longrightarrow> t' = t"
    using assms by (auto simp: call_def split: option.splits if_splits dest: advanceGame_throw)
  have r: "raise t i amount = Throws e t' \<longrightarrow> t' = t"
    using assms
    by (auto simp: raise_def split: option.splits amount.splits if_splits dest: advanceGame_throw)
  from a s f c k r show ?thesis by blast
qed


theorem validation_failures_leave_state_witness:
  "validationError InvalidBuyIn
   \<and> addPlayer default_Table ''alice'' ''w1'' 1 None ''1'' = Throws InvalidBuyIn default_Table
   \<and> validationError NotEnoughPlayers
   \<and> startHand default_Table demoDeck = Throws NotEnoughPlayers default_Table
   \<and> validationError NoActiveHand
   \<and> fold_act default_Table ''alice-1'' = Throws NoActiveHand default_Table
   \<and> validationError CannotCheck
   \<and> check headsUp ''alice-1'' = Throws CannotCheck headsUp
   \<and> validationError NothingToCall
   \<and> call (tableOf (call headsUp ''alice-1'')) ''bob-2''
       = Throws NothingToCall (tableOf (call headsUp ''alice-1''))
   \<and> validationError BelowMinRaise
   \<and> raise headsUp ''alice-1'' (Num 29) = Throws BelowMinRaise headsUp"
proof -
  have a: "addPlayer default_Table ''alice'' ''w1'' 1 None ''1''
           = Throws InvalidBuyIn (tableOf (addPlayer default_Table ''alice'' ''w1'' 1 None ''1''))"
    by code_simp
  have s: "startHand default_Table demoDeck
           = Throws NotEnoughPlayers (tableOf (startHand default_Table demoDeck))"
    by code_simp
  have f: "fold_act default_Table ''alice-1''
           = Throws NoActiveHand (tableOf (fold_act default_Table ''alice-1''))"
    by code_simp
  have c: "check headsUp ''alice-1'' = Throws CannotCheck (tableOf (check headsUp ''alice-1''))"
    by code_simp
  have k: "call (tableOf (call headsUp ''alice-1'')) ''bob-2''
           = Throws NothingToCall (tableOf (call (tableOf (call headsUp ''alice-1'')) ''bob-2''))"
    by code_simp
  have r: "raise headsUp ''alice-1'' (Num 29)
           = Throws BelowMinRaise (tableOf (raise headsUp ''alice-1'' (Num 29)))"
    by code_simp
  have a': "tableOf (addPlayer default_Table ''alice'' ''w1'' 1 None ''1'') = default_Table"
    using validation_failures_leave_state[of InvalidBuyIn default_Table "''alice''" "''w1''" 1 None "''1''"] a
    by simp
  have s': "tableOf (startHand default_Table demoDeck) = default_Table"
    using validation_failures_leave_state[of NotEnoughPlayers default_Table _ _ _ _ _ _ demoDeck] s
    by simp
  have f': "tableOf (fold_act default_Table ''alice-1'') = default_Table"
    using validation_failures_leave_state[of NoActiveHand default_Table _ _ _ _ _ _ _ "''alice-1''"] f
    by simp
  have c': "tableOf (check headsUp ''alice-1'') = headsUp"
    using validation_failures_leave_state[of CannotCheck headsUp _ _ _ _ _ _ _ "''alice-1''"] c
    by simp
  have k': "tableOf (call (tableOf (call headsUp ''alice-1'')) ''bob-2'')
            = tableOf (call headsUp ''alice-1'')"
    using validation_failures_leave_state[of NothingToCall "tableOf (call headsUp ''alice-1'')"
        _ _ _ _ _ _ _ "''bob-2''"] k
    by simp
  have r': "tableOf (raise headsUp ''alice-1'' (Num 29)) = headsUp"
    using validation_failures_leave_state[of BelowMinRaise headsUp _ _ _ _ _ _ _ "''alice-1''" "Num 29"] r
    by simp
  show ?thesis
    using a s f c k r a' s' f' c' k' r' by simp
qed

section \<open>The hand order\<close>

lemmas HAND_RANKINGS =
  HIGH_CARD_def PAIR_def TWO_PAIR_def THREE_OF_A_KIND_def STRAIGHT_def FLUSH_def
  FULL_HOUSE_def FOUR_OF_A_KIND_def STRAIGHT_FLUSH_def ROYAL_FLUSH_def



lemma getCombinations_length:
  "c \<in> set (getCombinations xs k) \<Longrightarrow> 0 < k \<Longrightarrow> length c = k"
  by (induction xs k arbitrary: c rule: getCombinations.induct) auto

lemma getCombinations_nonempty:
  "k \<le> length xs \<Longrightarrow> 0 < k \<Longrightarrow> getCombinations xs k \<noteq> []"
  by (induction xs k rule: getCombinations.induct) auto

lemma foldl_bestStep_Some:
  "\<exists>r. foldl bestStep (Some b) cs = Some r
       \<and> (r = b \<or> (\<exists>c \<in> set cs. r = (evaluate5Cards c)\<lparr>hcards := c\<rparr>))"
proof (induction cs arbitrary: b)
  case Nil
  then show ?case by simp
next
  case (Cons c cs)
  show ?case
  proof (cases "js_pos (compareHands (evaluate5Cards c) b)")
    case True
    then have "foldl bestStep (Some b) (c # cs)
               = foldl bestStep (Some ((evaluate5Cards c)\<lparr>hcards := c\<rparr>)) cs"
      by (simp add: bestStep_def)
    with Cons.IH[of "(evaluate5Cards c)\<lparr>hcards := c\<rparr>"] show ?thesis by auto
  next
    case False
    then have "foldl bestStep (Some b) (c # cs) = foldl bestStep (Some b) cs"
      by (simp add: bestStep_def)
    with Cons.IH[of b] show ?thesis by auto
  qed
qed

lemma evaluateHand_result:
  assumes "5 \<le> length cs"
  shows "\<exists>c. length c = 5 \<and> evaluateHand cs = Inr (Some ((evaluate5Cards c)\<lparr>hcards := c\<rparr>))"
proof -
  from getCombinations_nonempty[of 5 cs] assms obtain c0 rest where
    g: "getCombinations cs 5 = c0 # rest" by (cases "getCombinations cs 5") auto
  have len: "\<And>c. c \<in> set (c0 # rest) \<Longrightarrow> length c = 5"
    using getCombinations_length[of _ cs 5] g by simp
  have "foldl bestStep None (c0 # rest)
        = foldl bestStep (Some ((evaluate5Cards c0)\<lparr>hcards := c0\<rparr>)) rest"
    by (simp add: bestStep_def)
  with foldl_bestStep_Some[of "(evaluate5Cards c0)\<lparr>hcards := c0\<rparr>" rest]
  obtain c where "c \<in> set (c0 # rest)"
    "foldl bestStep None (c0 # rest) = Some ((evaluate5Cards c)\<lparr>hcards := c\<rparr>)"
    by auto
  then show ?thesis using len assms g by (auto simp: evaluateHand_def)
qed


lemma compareKickers_total:
  "length xs = length ys \<Longrightarrow> \<exists>v. compareKickers xs ys = Some v"
  by (induction xs ys rule: list_induct2) auto

lemma compareKickers_zero:
  "length xs = length ys \<Longrightarrow> (compareKickers xs ys = Some 0) = (xs = ys)"
  by (induction xs ys rule: list_induct2) auto

lemma compareKickers_antisym:
  "length xs = length ys \<Longrightarrow> compareKickers xs ys = Some v \<Longrightarrow> compareKickers ys xs = Some (- v)"
  by (induction xs ys rule: list_induct2) (auto split: if_splits)

lemma compareKickers_trans:
  "length xs = length ys \<Longrightarrow> length ys = length zs \<Longrightarrow>
   compareKickers xs ys = Some a \<Longrightarrow> compareKickers ys zs = Some b \<Longrightarrow> a \<le> 0 \<Longrightarrow> b \<le> 0 \<Longrightarrow>
   \<exists>c. compareKickers xs zs = Some c \<and> c \<le> 0"
  by (induction xs ys zs rule: list_induct3) (auto split: if_splits)


lemma partitions_of_five:
  fixes xs :: "int list"
  assumes "sorted_wrt (\<ge>) xs" and "\<forall>x \<in> set xs. 1 \<le> x" and "sum_list xs = 5"
  shows "xs \<in> {[5], [4, 1], [3, 2], [3, 1, 1], [2, 2, 1], [2, 1, 1, 1], [1, 1, 1, 1, 1]}"
proof -
  have len: "int (length ys) \<le> sum_list ys" if "\<forall>y \<in> set ys. 1 \<le> y" for ys :: "int list"
    using that by (induction ys) auto
  from len[OF assms(2)] assms(3) have "length xs \<le> 5" by simp
  then consider "length xs = 0" | "length xs = 1" | "length xs = 2" | "length xs = 3"
    | "length xs = 4" | "length xs = 5" by linarith
  then show ?thesis
  proof cases
    case 1
    then show ?thesis using assms by simp
  next
    case 2
    then obtain a where "xs = [a]" by (auto simp: length_Suc_conv)
    then show ?thesis using assms by simp
  next
    case 3
    then obtain a b where "xs = [a, b]"
      by (auto simp: length_Suc_conv numeral_2_eq_2)
    then show ?thesis using assms by auto
  next
    case 4
    then obtain a b c where "xs = [a, b, c]"
      by (auto simp: length_Suc_conv numeral_3_eq_3)
    then show ?thesis using assms by auto
  next
    case 5
    then obtain a b c d where "xs = [a, b, c, d]"
      by (auto simp: length_Suc_conv eval_nat_numeral)
    then show ?thesis using assms by auto
  next
    case 6
    then obtain a b c d e where "xs = [a, b, c, d, e]"
      by (auto simp: length_Suc_conv eval_nat_numeral)
    then show ?thesis using assms by auto
  qed
qed



lemma rankCounts_length_sum:
  "sum_list (map snd (rankCounts ranks)) = int (length ranks)"
proof -
  have "sum_list (map snd (rankCounts ranks))
        = sum_list (map (\<lambda>r. int (count_list ranks r)) (sort (remdups ranks)))"
    by (simp add: rankCounts_def comp_def)
  also have "\<dots> = (\<Sum>r \<in> set ranks. int (count_list ranks r))"
    by (subst sum_list_distinct_conv_sum_set) simp_all
  also have "\<dots> = int (\<Sum>r \<in> set ranks. count_list ranks r)" by simp
  also have "\<dots> = int (length ranks)" by (simp add: sum_count_set)
  finally show ?thesis .
qed

lemma rankCounts_positive: "\<forall>c \<in> set (map snd (rankCounts ranks)). 1 \<le> c"
proof -
  have "0 < count_list ranks r" if "r \<in> set ranks" for r
    using that by (induction ranks) auto
  then show ?thesis by (fastforce simp: rankCounts_def)
qed

lemma counts_partition:
  assumes "length ranks = 5"
  shows "rev (sort (map snd (rankCounts ranks)))
         \<in> {[5], [4, 1], [3, 2], [3, 1, 1], [2, 2, 1], [2, 1, 1, 1], [1, 1, 1, 1, 1]}"
proof (rule partitions_of_five)
  show "sorted_wrt (\<ge>) (rev (sort (map snd (rankCounts ranks))))"
    using sorted_sort[of "map snd (rankCounts ranks)"]
    by (simp add: sorted_wrt_rev del: sorted_sort)
  show "\<forall>x \<in> set (rev (sort (map snd (rankCounts ranks)))). 1 \<le> x"
    using rankCounts_positive[of ranks] by simp
  have "sum_list (rev (sort (map snd (rankCounts ranks)))) = sum_list (map snd (rankCounts ranks))"
    by (metis mset_sort set_mset_mset sum_mset_sum_list mset_rev)
  then show "sum_list (rev (sort (map snd (rankCounts ranks)))) = 5"
    using assms by (simp add: rankCounts_length_sum)
qed

lemma length_getKickers: "length (getKickers rc p) = length rc"
  by (simp add: getKickers_def)

lemma length_counts: "length (rev (sort (map snd rc))) = length rc"
  by simp

lemma evaluate5Cards_wellFormed:
  assumes "length cs = 5"
  shows "wellFormed (evaluate5Cards cs)"
proof -
  define ranks where "ranks = map card_value (sort_key (\<lambda>c. - card_value c) cs)"
  define counts where "counts = rev (sort (map snd (rankCounts ranks)))"
  have lr: "length ranks = 5" using assms by (simp add: ranks_def)
  have lc: "length (rankCounts ranks) = length counts" by (simp add: counts_def)
  from counts_partition[OF lr]
  have part: "counts \<in> {[5], [4, 1], [3, 2], [3, 1, 1], [2, 2, 1], [2, 1, 1, 1], [1, 1, 1, 1, 1]}"
    by (simp add: counts_def)
  show ?thesis
    unfolding wellFormed_def evaluate5Cards_def Let_def ranks_def[symmetric] counts_def[symmetric]
    using part lr lc
    by (auto simp: HAND_RANKINGS length_getKickers js_nth_def)
qed


lemma compareHands_total:
  "wellFormed a \<Longrightarrow> wellFormed b \<Longrightarrow> \<exists>v. compareHands a b = Some v"
  using compareKickers_total[of "kickers a" "kickers b"]
  by (auto simp: compareHands_def wellFormed_def)

lemma compareHands_zero:
  "wellFormed a \<Longrightarrow> wellFormed b \<Longrightarrow> (compareHands a b = Some 0) = sameHand a b"
  using compareKickers_zero[of "kickers a" "kickers b"]
  by (auto simp: compareHands_def wellFormed_def sameHand_def)

lemma compareHands_antisym:
  "wellFormed a \<Longrightarrow> wellFormed b \<Longrightarrow> compareHands a b = Some v \<Longrightarrow>
     compareHands b a = Some (- v)"
  using compareKickers_antisym[of "kickers a" "kickers b" v]
  by (auto simp: compareHands_def wellFormed_def split: if_splits)

lemma handLe_trans:
  assumes "wellFormed a" "wellFormed b" "wellFormed c" "handLe a b" "handLe b c"
  shows "handLe a c"
proof -
  from assms(4) obtain v where v: "compareHands a b = Some v" "v \<le> 0"
    by (auto simp: handLe_def split: option.splits)
  from assms(5) obtain w where w: "compareHands b c = Some w" "w \<le> 0"
    by (auto simp: handLe_def split: option.splits)
  show ?thesis
  proof (cases "ranking a = ranking b \<and> ranking b = ranking c")
    case True
    then have l: "length (kickers a) = length (kickers b)" "length (kickers b) = length (kickers c)"
      using assms(1-3) by (simp_all add: wellFormed_def)
    from True v w have "compareKickers (kickers a) (kickers b) = Some v"
      "compareKickers (kickers b) (kickers c) = Some w"
      by (simp_all add: compareHands_def)
    from compareKickers_trans[OF l this v(2) w(2)] True show ?thesis
      by (auto simp: handLe_def compareHands_def)
  next
    case False
    have "ranking a \<le> ranking b" using v by (auto simp: compareHands_def split: if_splits)
    moreover have "ranking b \<le> ranking c" using w by (auto simp: compareHands_def split: if_splits)
    ultimately have "ranking a < ranking c" using False by linarith
    then show ?thesis by (simp add: handLe_def compareHands_def)
  qed
qed

lemma wellFormed_hcards [simp]: "wellFormed (h\<lparr>hcards := c\<rparr>) = wellFormed h"
  by (simp add: wellFormed_def)

text \<open>
  Claim C4. For all card lists \<open>A\<close>, \<open>B\<close> and \<open>C\<close> of at least five cards (five to seven
  among them), \<^verbatim>\<open>evaluateHand\<close> returns a result for each, and \<^verbatim>\<open>compareHands\<close> on these
  results is a number (never \<^verbatim>\<open>NaN\<close>), total, transitive and antisymmetric; it yields 0
  exactly when the two results have the same category and the same kicker array.
\<close>

theorem compareHands_total_order:
  assumes "5 \<le> length A" and "5 \<le> length B" and "5 \<le> length C"
  shows "\<exists>a b c. evaluateHand A = Inr (Some a) \<and> evaluateHand B = Inr (Some b)
           \<and> evaluateHand C = Inr (Some c)
           \<and> compareHands a b \<noteq> None
           \<and> (handLe a b \<or> handLe b a)
           \<and> (handLe a b \<and> handLe b c \<longrightarrow> handLe a c)
           \<and> (handLe a b \<and> handLe b a \<longrightarrow> sameHand a b)
           \<and> (js_zero (compareHands a b) \<longleftrightarrow> sameHand a b)
           \<and> (\<forall>v. compareHands a b = Some v \<longrightarrow> compareHands b a = Some (- v))"
proof -
  from evaluateHand_result[OF assms(1)] obtain ca where
    a: "length ca = 5" "evaluateHand A = Inr (Some ((evaluate5Cards ca)\<lparr>hcards := ca\<rparr>))" by blast
  from evaluateHand_result[OF assms(2)] obtain cb where
    b: "length cb = 5" "evaluateHand B = Inr (Some ((evaluate5Cards cb)\<lparr>hcards := cb\<rparr>))" by blast
  from evaluateHand_result[OF assms(3)] obtain cc where
    c: "length cc = 5" "evaluateHand C = Inr (Some ((evaluate5Cards cc)\<lparr>hcards := cc\<rparr>))" by blast
  let ?a = "(evaluate5Cards ca)\<lparr>hcards := ca\<rparr>"
  let ?b = "(evaluate5Cards cb)\<lparr>hcards := cb\<rparr>"
  let ?c = "(evaluate5Cards cc)\<lparr>hcards := cc\<rparr>"
  have wa: "wellFormed ?a" using evaluate5Cards_wellFormed[OF a(1)] by simp
  have wb: "wellFormed ?b" using evaluate5Cards_wellFormed[OF b(1)] by simp
  have wc: "wellFormed ?c" using evaluate5Cards_wellFormed[OF c(1)] by simp
  from compareHands_total[OF wa wb] obtain v where v: "compareHands ?a ?b = Some v" by blast
  have vb: "compareHands ?b ?a = Some (- v)" by (rule compareHands_antisym[OF wa wb v])
  have p1: "compareHands ?a ?b \<noteq> None" using v by simp
  have p2: "handLe ?a ?b \<or> handLe ?b ?a"
    using v vb by (cases "v \<le> 0") (simp_all add: handLe_def)
  have p3: "handLe ?a ?b \<and> handLe ?b ?c \<longrightarrow> handLe ?a ?c"
    using handLe_trans[OF wa wb wc] by blast
  have p5: "js_zero (compareHands ?a ?b) \<longleftrightarrow> sameHand ?a ?b"
    using compareHands_zero[OF wa wb] v by (simp add: js_zero_def)
  have p4: "handLe ?a ?b \<and> handLe ?b ?a \<longrightarrow> sameHand ?a ?b"
    using v vb p5 by (auto simp: handLe_def js_zero_def)
  have p6: "\<forall>u. compareHands ?a ?b = Some u \<longrightarrow> compareHands ?b ?a = Some (- u)"
    using compareHands_antisym[OF wa wb] by blast
  from a(2) b(2) c(2) p1 p2 p3 p4 p5 p6 show ?thesis by blast
qed


theorem compareHands_total_order_witness:
  "5 \<le> length [Card RK Hearts, Card RK Clubs, Card R3 Diamonds, Card R9 Hearts, Card R5 Clubs,
                 Card RJ Spades, Card R2 Diamonds]
   \<and> 5 \<le> length [Card RA Spades, Card R2 Hearts, Card R3 Spades, Card R4 Clubs, Card R5 Spades]
   \<and> 5 \<le> length [Card R6 Hearts, Card R2 Clubs, Card R3 Diamonds, Card R4 Hearts, Card R5 Clubs,
                  Card RK Spades]
   \<and> handLe
        (the (projr (evaluateHand [Card RK Hearts, Card RK Clubs, Card R3 Diamonds, Card R9 Hearts,
                                   Card R5 Clubs, Card RJ Spades, Card R2 Diamonds])))
        (the (projr (evaluateHand [Card RA Spades, Card R2 Hearts, Card R3 Spades, Card R4 Clubs,
                                   Card R5 Spades])))
   \<and> handLe
        (the (projr (evaluateHand [Card RA Spades, Card R2 Hearts, Card R3 Spades, Card R4 Clubs,
                                   Card R5 Spades])))
        (the (projr (evaluateHand [Card R6 Hearts, Card R2 Clubs, Card R3 Diamonds, Card R4 Hearts,
                                   Card R5 Clubs, Card RK Spades])))
   \<and> handLe
        (the (projr (evaluateHand [Card RK Hearts, Card RK Clubs, Card R3 Diamonds, Card R9 Hearts,
                                   Card R5 Clubs, Card RJ Spades, Card R2 Diamonds])))
        (the (projr (evaluateHand [Card R6 Hearts, Card R2 Clubs, Card R3 Diamonds, Card R4 Hearts,
                                   Card R5 Clubs, Card RK Spades])))"
proof -
  let ?A = "[Card RK Hearts, Card RK Clubs, Card R3 Diamonds, Card R9 Hearts, Card R5 Clubs,
             Card RJ Spades, Card R2 Diamonds]"
  let ?B = "[Card RA Spades, Card R2 Hearts, Card R3 Spades, Card R4 Clubs, Card R5 Spades]"
  let ?C = "[Card R6 Hearts, Card R2 Clubs, Card R3 Diamonds, Card R4 Hearts, Card R5 Clubs,
             Card RK Spades]"
  have h: "5 \<le> length ?A" "5 \<le> length ?B" "5 \<le> length ?C" by simp_all
  have ab: "handLe (the (projr (evaluateHand ?A))) (the (projr (evaluateHand ?B)))" by code_simp
  have bc: "handLe (the (projr (evaluateHand ?B))) (the (projr (evaluateHand ?C)))" by code_simp
  from compareHands_total_order[OF h] obtain a b c where
    e: "evaluateHand ?A = Inr (Some a)" "evaluateHand ?B = Inr (Some b)"
       "evaluateHand ?C = Inr (Some c)"
    and t: "handLe a b \<and> handLe b c \<longrightarrow> handLe a c" by blast
  have "handLe (the (projr (evaluateHand ?A))) (the (projr (evaluateHand ?C)))"
    using t ab bc unfolding e by simp
  with h ab bc show ?thesis by blast
qed

subsection \<open>The wheel\<close>

lemma rank_index_nonneg: "0 \<le> rank_index r"
  by (cases r) simp_all

lemma inj_rank_index: "inj rank_index"
proof (rule injI)
  fix x y
  assume "rank_index x = rank_index y"
  then show "x = y" by (cases x; cases y; simp)
qed

lemma set_sorted_cards [simp]: "set (sort_key f cs) = set cs"
  by simp

lemma wheel_ranks:
  assumes "isWheel w"
  shows "map card_value (sort_key (\<lambda>c. - card_value c) w) = [12, 3, 2, 1, 0]"
proof -
  let ?s = "sort_key (\<lambda>c. - card_value c) w"
  let ?n = "map (\<lambda>c. - card_value c) ?s"
  have len: "length ?n = 5" using assms by (simp add: isWheel_def)
  have srt: "sorted ?n" by (rule sorted_sort_key)
  have "set ?n = (\<lambda>r. - rank_index r) ` set (map rank_of w)"
    by (auto simp: card_value_def image_iff)
  also have "\<dots> = (\<lambda>r. - rank_index r) ` {RA, R2, R3, R4, R5}"
    using assms by (simp add: isWheel_def)
  also have "\<dots> = {- 12, - 3, - 2, - 1, 0}" by auto
  finally have st: "set ?n = {- 12, - 3, - 2, - 1, 0}" .
  have "card (set ?n) = length ?n" using len st by simp
  then have dst: "distinct ?n" by (rule card_distinct)
  have "?n = [- 12, - 3, - 2, - 1, 0]"
    by (rule sorted_distinct_set_unique[OF srt dst]) (use st in simp_all)
  then have "map uminus ?n = map uminus [- 12, - 3, - 2, - 1, 0]" by (rule arg_cong)
  then show ?thesis by (simp add: comp_def)
qed

lemma wheel_from_check:
  assumes "length h = 5"
    and "checkWheelStraight (map card_value (sort_key (\<lambda>c. - card_value c) h))"
  shows "isWheel h"
proof -
  let ?r = "map card_value (sort_key (\<lambda>c. - card_value c) h)"
  have "set (rev (sort ?r)) = {12, 3, 2, 1, 0}"
    using assms(2) unfolding checkWheelStraight_def by (metis list.simps(15) empty_set)
  then have "rank_index ` set (map rank_of h) = {12, 3, 2, 1, 0}"
    by (simp add: card_value_def[abs_def] image_image)
  also have "\<dots> = rank_index ` {RA, R2, R3, R4, R5}" by auto
  finally have "set (map rank_of h) = {RA, R2, R3, R4, R5}"
    using inj_rank_index by (simp only: inj_image_eq_iff)
  then show ?thesis using assms(1) by (simp add: isWheel_def)
qed

lemma flush_iff:
  assumes "cs \<noteq> []"
  shows "list_all (\<lambda>s. s = hd (map suit_of (sort_key f cs))) (map suit_of (sort_key f cs))
         = sameSuit cs"
proof -
  let ?S = "sort_key f cs"
  have ne: "?S \<noteq> []" using assms by (metis length_sort length_0_conv)
  have hS: "hd ?S \<in> set cs" using ne by (metis hd_in_set set_sort)
  have hc: "hd cs \<in> set cs" using assms by simp
  have "list_all (\<lambda>s. s = hd (map suit_of ?S)) (map suit_of ?S)
        = (\<forall>c \<in> set cs. suit_of c = suit_of (hd ?S))"
    using ne by (simp add: list_all_iff hd_map)
  also have "\<dots> = sameSuit cs"
    unfolding sameSuit_def using hS hc by metis
  finally show ?thesis .
qed

lemma checkStraight_top:
  assumes "length xs = 5" and "checkStraight xs" and "\<forall>x \<in> set xs. 0 \<le> x"
  shows "\<exists>r rs. xs = r # rs \<and> 4 \<le> r"
proof -
  from assms(1) obtain a b c d e where xs: "xs = [a, b, c, d, e]"
    by (auto simp: length_Suc_conv eval_nat_numeral)
  with assms(2,3) show ?thesis by (auto split: if_splits)
qed

lemma evaluate5Cards_wheel:
  assumes "isWheel w"
  shows "evaluate5Cards w =
           (if sameSuit w then \<lparr>ranking = STRAIGHT_FLUSH, kickers = [3, 2, 1, 0, - 1], hcards = []\<rparr>
            else \<lparr>ranking = STRAIGHT, kickers = [3], hcards = []\<rparr>)"
proof -
  have "length w = 5" using assms by (simp add: isWheel_def)
  then have ne: "w \<noteq> []" by auto
  have rc: "rev (sort (map snd (rankCounts [12, 3, 2, 1, 0]))) = [1, 1, 1, 1, 1]"
    by (simp add: rankCounts_def)
  show ?thesis
    unfolding evaluate5Cards_def Let_def wheel_ranks[OF assms] flush_iff[OF ne] rc
    by (simp add: checkWheelStraight_def js_nth_def)
qed

lemma other_straight_kickers:
  assumes "length h = 5" and "\<not> isWheel h"
    and "ranking (evaluate5Cards h) = STRAIGHT \<or> ranking (evaluate5Cards h) = STRAIGHT_FLUSH"
  shows "\<exists>r rs. kickers (evaluate5Cards h) = r # rs \<and> 4 \<le> r"
proof -
  define ranks where "ranks = map card_value (sort_key (\<lambda>c. - card_value c) h)"
  have nw: "\<not> checkWheelStraight ranks"
    using wheel_from_check[OF assms(1)] assms(2) by (auto simp: ranks_def)
  have lr: "length ranks = 5" using assms(1) by (simp add: ranks_def)
  have nn: "\<forall>x \<in> set ranks. 0 \<le> x"
    by (auto simp: ranks_def card_value_def rank_index_nonneg)
  have top: "checkStraight ranks \<Longrightarrow> \<exists>r rs. ranks = r # rs \<and> 4 \<le> r"
    using checkStraight_top[OF lr _ nn] by blast
  show ?thesis
    using assms(3) nw top
    unfolding evaluate5Cards_def Let_def ranks_def[symmetric]
    by (auto simp: HAND_RANKINGS split: if_splits)
qed

lemma getCombinations_too_many: "length xs < k \<Longrightarrow> getCombinations xs k = []"
  by (induction xs k rule: getCombinations.induct) auto

lemma getCombinations_all: "xs \<noteq> [] \<Longrightarrow> getCombinations xs (length xs) = [xs]"
proof (induction xs)
  case Nil
  then show ?case by simp
next
  case (Cons x xs)
  show ?case
  proof (cases xs)
    case Nil
    then show ?thesis by simp
  next
    case (Cons y ys)
    then have ne: "xs \<noteq> []" by simp
    have "getCombinations (x # xs) (length (x # xs))
          = map ((#) x) (getCombinations xs (length xs)) @ getCombinations xs (Suc (length xs))"
      using Cons by simp
    then show ?thesis
      using Cons.IH[OF ne] getCombinations_too_many[of xs "Suc (length xs)"] by simp
  qed
qed

lemma evaluateHand_five:
  "length cs = 5 \<Longrightarrow> evaluateHand cs = Inr (Some ((evaluate5Cards cs)\<lparr>hcards := cs\<rparr>))"
proof -
  assume l: "length cs = 5"
  then have "cs \<noteq> []" by auto
  from getCombinations_all[OF this] l have "getCombinations cs 5 = [cs]" by simp
  then show ?thesis using l by (simp add: evaluateHand_def bestStep_def)
qed

lemma wheel_tie_kickers:
  assumes "isWheel w" and "isWheel c" and "ranking (evaluate5Cards c) = ranking (evaluate5Cards w)"
  shows "kickers (evaluate5Cards c) = kickers (evaluate5Cards w)"
  using assms(3) unfolding evaluate5Cards_wheel[OF assms(1)] evaluate5Cards_wheel[OF assms(2)]
  by (auto simp: HAND_RANKINGS split: if_splits)

text \<open>
  Claim C7. A five-card hand with the ranks A, 2, 3, 4, 5 is evaluated as itself and is
  classified as a straight, and as a straight flush when its five cards share a suit. It
  compares strictly lower than every other hand of the same category (every other straight,
  respectively every other straight flush: a five-card hand that is not a wheel, or the
  result of \<^verbatim>\<open>evaluateHand\<close> on five or more cards whose kickers are not the wheel's) and
  strictly higher than every hand of a lower category.
\<close>

theorem wheel_lowest_straight:
  assumes "isWheel w"
  shows "evaluateHand w = Inr (Some ((evaluate5Cards w)\<lparr>hcards := w\<rparr>))
       \<and> ranking (evaluate5Cards w) = (if sameSuit w then STRAIGHT_FLUSH else STRAIGHT)
       \<and> (\<forall>h. length h = 5 \<and> \<not> isWheel h
               \<and> ranking (evaluate5Cards h) = ranking (evaluate5Cards w) \<longrightarrow>
             (\<exists>v. compareHands (evaluate5Cards w) (evaluate5Cards h) = Some v \<and> v < 0))
       \<and> (\<forall>h. ranking (evaluate5Cards h) < ranking (evaluate5Cards w) \<longrightarrow>
             (\<exists>v. compareHands (evaluate5Cards w) (evaluate5Cards h) = Some v \<and> 0 < v))
       \<and> (\<forall>H b. 5 \<le> length H \<and> evaluateHand H = Inr (Some b)
               \<and> ranking b = ranking (evaluate5Cards w)
               \<and> kickers b \<noteq> kickers (evaluate5Cards w) \<longrightarrow>
             (\<exists>v. compareHands (evaluate5Cards w) b = Some v \<and> v < 0))
       \<and> (\<forall>H b. evaluateHand H = Inr (Some b) \<and> ranking b < ranking (evaluate5Cards w) \<longrightarrow>
             (\<exists>v. compareHands (evaluate5Cards w) b = Some v \<and> 0 < v))"
proof (intro conjI allI impI)
  show "evaluateHand w = Inr (Some ((evaluate5Cards w)\<lparr>hcards := w\<rparr>))"
    using assms by (intro evaluateHand_five) (simp add: isWheel_def)
next
  show "ranking (evaluate5Cards w) = (if sameSuit w then STRAIGHT_FLUSH else STRAIGHT)"
    by (simp add: evaluate5Cards_wheel[OF assms])
next
  fix h
  assume "ranking (evaluate5Cards h) < ranking (evaluate5Cards w)"
  then show "\<exists>v. compareHands (evaluate5Cards w) (evaluate5Cards h) = Some v \<and> 0 < v"
    by (simp add: compareHands_def)
next
  fix H b
  assume "evaluateHand H = Inr (Some b) \<and> ranking b < ranking (evaluate5Cards w)"
  then show "\<exists>v. compareHands (evaluate5Cards w) b = Some v \<and> 0 < v"
    by (simp add: compareHands_def)
next
  fix h
  assume a: "length h = 5 \<and> \<not> isWheel h
             \<and> ranking (evaluate5Cards h) = ranking (evaluate5Cards w)"
  then have "ranking (evaluate5Cards h) = STRAIGHT \<or> ranking (evaluate5Cards h) = STRAIGHT_FLUSH"
    by (simp add: evaluate5Cards_wheel[OF assms])
  from other_straight_kickers[OF _ _ this] a obtain r rs where
    k: "kickers (evaluate5Cards h) = r # rs" "4 \<le> r" by blast
  show "\<exists>v. compareHands (evaluate5Cards w) (evaluate5Cards h) = Some v \<and> v < 0"
    using a k by (cases "sameSuit w") (simp_all add: compareHands_def evaluate5Cards_wheel[OF assms])
next
  fix H b
  assume a: "5 \<le> length H \<and> evaluateHand H = Inr (Some b)
             \<and> ranking b = ranking (evaluate5Cards w)
             \<and> kickers b \<noteq> kickers (evaluate5Cards w)"
  from evaluateHand_result[of H] a obtain c where
    c: "length c = 5" "b = (evaluate5Cards c)\<lparr>hcards := c\<rparr>" by auto
  have rk: "ranking (evaluate5Cards c) = ranking (evaluate5Cards w)" using a c by simp
  have nw: "\<not> isWheel c" using wheel_tie_kickers[OF assms _ rk] a c by auto
  have "ranking (evaluate5Cards c) = STRAIGHT \<or> ranking (evaluate5Cards c) = STRAIGHT_FLUSH"
    using rk by (simp add: evaluate5Cards_wheel[OF assms])
  from other_straight_kickers[OF c(1) nw this] obtain r rs where
    k: "kickers (evaluate5Cards c) = r # rs" "4 \<le> r" by blast
  show "\<exists>v. compareHands (evaluate5Cards w) b = Some v \<and> v < 0"
    using rk k c
    by (cases "sameSuit w") (simp_all add: compareHands_def evaluate5Cards_wheel[OF assms])
qed

theorem wheel_lowest_straight_witness:
  "isWheel [Card RA Spades, Card R2 Hearts, Card R3 Spades, Card R4 Clubs, Card R5 Spades]
   \<and> ranking (evaluate5Cards
         [Card RA Spades, Card R2 Hearts, Card R3 Spades, Card R4 Clubs, Card R5 Spades]) = STRAIGHT
   \<and> (\<exists>v. compareHands
          (evaluate5Cards
             [Card RA Spades, Card R2 Hearts, Card R3 Spades, Card R4 Clubs, Card R5 Spades])
          (evaluate5Cards
             [Card R6 Hearts, Card R2 Clubs, Card R3 Diamonds, Card R4 Hearts, Card R5 Clubs])
          = Some v \<and> v < 0)
   \<and> (\<exists>v. compareHands
          (evaluate5Cards
             [Card RA Spades, Card R2 Hearts, Card R3 Spades, Card R4 Clubs, Card R5 Spades])
          (evaluate5Cards
             [Card RA Hearts, Card RA Clubs, Card RA Diamonds, Card RK Hearts, Card RQ Clubs])
          = Some v \<and> 0 < v)
   \<and> (\<exists>v. compareHands
          (evaluate5Cards
             [Card RA Spades, Card R2 Hearts, Card R3 Spades, Card R4 Clubs, Card R5 Spades])
          (the (projr (evaluateHand
             [Card R6 Hearts, Card R2 Clubs, Card R3 Diamonds, Card R4 Hearts, Card R5 Clubs,
              Card RK Spades, Card RK Hearts])))
          = Some v \<and> v < 0)
   \<and> (\<exists>v. compareHands
          (evaluate5Cards
             [Card RA Spades, Card R2 Hearts, Card R3 Spades, Card R4 Clubs, Card R5 Spades])
          (the (projr (evaluateHand
             [Card RA Hearts, Card RA Clubs, Card RA Diamonds, Card RK Hearts, Card RQ Clubs,
              Card R7 Spades])))
          = Some v \<and> 0 < v)"
proof -
  let ?w = "[Card RA Spades, Card R2 Hearts, Card R3 Spades, Card R4 Clubs, Card R5 Spades]"
  let ?h = "[Card R6 Hearts, Card R2 Clubs, Card R3 Diamonds, Card R4 Hearts, Card R5 Clubs]"
  let ?p = "[Card RA Hearts, Card RA Clubs, Card RA Diamonds, Card RK Hearts, Card RQ Clubs]"
  let ?H = "[Card R6 Hearts, Card R2 Clubs, Card R3 Diamonds, Card R4 Hearts, Card R5 Clubs,
             Card RK Spades, Card RK Hearts]"
  let ?P = "[Card RA Hearts, Card RA Clubs, Card RA Diamonds, Card RK Hearts, Card RQ Clubs,
             Card R7 Spades]"
  have w: "isWheel ?w" by (simp add: isWheel_def)
  have s: "\<not> sameSuit ?w" by (simp add: sameSuit_def)
  have h: "length ?h = 5 \<and> \<not> isWheel ?h
           \<and> ranking (evaluate5Cards ?h) = ranking (evaluate5Cards ?w)"
    by code_simp
  have p: "ranking (evaluate5Cards ?p) < ranking (evaluate5Cards ?w)"
    by code_simp
  have H: "5 \<le> length ?H \<and> evaluateHand ?H = Inr (Some (the (projr (evaluateHand ?H))))
           \<and> ranking (the (projr (evaluateHand ?H))) = ranking (evaluate5Cards ?w)
           \<and> kickers (the (projr (evaluateHand ?H))) \<noteq> kickers (evaluate5Cards ?w)"
    by code_simp
  have P: "evaluateHand ?P = Inr (Some (the (projr (evaluateHand ?P))))
           \<and> ranking (the (projr (evaluateHand ?P))) < ranking (evaluate5Cards ?w)"
    by code_simp
  note T = wheel_lowest_straight[OF w]
  from T s have c1: "ranking (evaluate5Cards ?w) = STRAIGHT" by simp
  from T h have c2: "\<exists>v. compareHands (evaluate5Cards ?w) (evaluate5Cards ?h) = Some v \<and> v < 0"
    by blast
  from T p have c3: "\<exists>v. compareHands (evaluate5Cards ?w) (evaluate5Cards ?p) = Some v \<and> 0 < v"
    by blast
  from T H have c4: "\<exists>v. compareHands (evaluate5Cards ?w) (the (projr (evaluateHand ?H))) = Some v
                        \<and> v < 0"
    by blast
  from T P have c5: "\<exists>v. compareHands (evaluate5Cards ?w) (the (projr (evaluateHand ?P))) = Some v
                        \<and> 0 < v"
    by blast
  from w c1 c2 c3 c4 c5 show ?thesis by blast
qed

section \<open>Chips: conservation, the current bet, integrality\<close>



lemma length_upd [simp]: "length (upd i f ps) = length ps"
  by (simp add: upd_def)

lemma nth_upd_same [simp]: "i < length ps \<Longrightarrow> upd i f ps ! i = f (ps ! i)"
  by (simp add: upd_def)

lemma sum_list_update_group:
  fixes xs :: "'a::ab_group_add list"
  shows "k < length xs \<Longrightarrow> sum_list (xs[k := x]) = sum_list xs + x - xs ! k"
proof (induction xs arbitrary: k)
  case Nil
  then show ?case by simp
next
  case (Cons y ys)
  then show ?case by (cases k) (simp_all add: algebra_simps)
qed

lemma chips_upd_sum:
  "i < length ps \<Longrightarrow>
     sum_list (map chips (upd i f ps)) = sum_list (map chips ps) + chips (f (ps ! i)) - chips (ps ! i)"
  by (simp add: upd_def map_update sum_list_update_group)


















lemma creditWinners_sum:
  "\<forall>w \<in> set ws. fst w < length ps \<Longrightarrow>
     length (creditWinners a ws ps) = length ps
     \<and> sum_list (map chips (creditWinners a ws ps))
         = sum_list (map chips ps) + of_nat (length ws) * a"
proof (induction ws arbitrary: ps)
  case Nil
  then show ?case by (simp add: creditWinners_def)
next
  case (Cons w ws)
  let ?ps1 = "upd (fst w) (\<lambda>p. p\<lparr>chips := chips p + a\<rparr>) ps"
  have c: "creditWinners a (w # ws) ps = creditWinners a ws ?ps1"
    by (simp add: creditWinners_def)
  have "\<forall>w \<in> set ws. fst w < length ?ps1" using Cons.prems by simp
  from Cons.IH[OF this] have
    "length (creditWinners a ws ?ps1) = length ps"
    "sum_list (map chips (creditWinners a ws ?ps1))
       = sum_list (map chips ?ps1) + of_nat (length ws) * a" by simp_all
  moreover have "sum_list (map chips ?ps1) = sum_list (map chips ps) + a"
    using Cons.prems by (simp add: chips_upd_sum)
  ultimately show ?case using c by (simp add: algebra_simps)
qed

lemma evalResults_fst: "evalResults t js = Inr rs \<Longrightarrow> map fst rs = js"
proof (induction js arbitrary: rs)
  case Nil
  then show ?case by simp
next
  case (Cons j js)
  then show ?case by (auto split: sum.splits option.splits)
qed

lemma set_insertResult: "set (insertResult x ys) = insert x (set ys)"
  by (induction ys) auto

lemma set_sortResults: "set (sortResults rs) = set rs"
  by (induction rs) (simp_all add: sortResults_def set_insertResult)

lemma winnersOf_subset: "set (winnersOf r0 rest) \<subseteq> set (r0 # rest)"
  by (auto simp: winnersOf_def dest: set_takeWhileD)

lemma floor_share_le:
  fixes x :: rat
  assumes "0 < n"
  shows "of_nat n * of_int (floor (x / of_nat n)) \<le> x"
proof -
  have nz: "(0::rat) < of_nat n" using assms by simp
  have "of_int (floor (x / of_nat n)) \<le> x / of_nat n" by simp
  then have "of_int (floor (x / of_nat n)) * of_nat n \<le> x"
    using nz by (simp only: pos_le_divide_eq)
  then show ?thesis by (simp only: mult.commute)
qed

lemma showdown_total:
  assumes "showdown t = Returns t'"
  shows "\<exists>n. 0 < n
           \<and> chipsTotal t' = chipsTotal t + of_nat n * of_int (floor ((pot t - rakeOf t) / of_nat n))
           \<and> of_nat n * of_int (floor ((pot t - rakeOf t) / of_nat n)) \<le> pot t - rakeOf t
           \<and> pot t' = pot t"
proof -
  let ?t1 = "t\<lparr>phase := SHOWDOWN\<rparr>"
  from assms obtain results where r: "evalResults ?t1 (getPlayersInHand ?t1) = Inr results"
    by (auto simp: showdown_def Let_def split: sum.splits)
  from assms r obtain r0 rest where s: "sortResults results = r0 # rest"
    by (cases "sortResults results") (auto simp: showdown_def Let_def)
  let ?ws = "winnersOf r0 rest"
  let ?a = "of_int (floor ((pot t - rakeOf t) / of_nat (length ?ws))) :: rat"
  have rk: "rakeOf ?t1 = rakeOf t" by (simp add: rakeOf_def)
  from assms r s have t': "players t' = creditWinners ?a ?ws (players t)" "pot t' = pot t"
    by (auto simp: showdown_def Let_def rk pushCompleted_def logAction_def split: option.splits)
  have "set ?ws \<subseteq> set results"
    using winnersOf_subset[of r0 rest] set_sortResults[of results] s by simp
  moreover have "fst ` set results = set (getPlayersInHand ?t1)"
    using evalResults_fst[OF r] by (metis set_map)
  ultimately have "\<forall>w \<in> set ?ws. fst w < length (players t)"
    by (auto simp: getPlayersInHand_def)
  from creditWinners_sum[OF this, of ?a]
  have "chipsTotal t' = chipsTotal t + of_nat (length ?ws) * ?a"
    by (simp add: chipsTotal_def t')
  moreover have "0 < length ?ws" by (simp add: winnersOf_def)
  ultimately show ?thesis using t'(2) floor_share_le[of "length ?ws" "pot t - rakeOf t"] by blast
qed









text \<open>
  Who the winners of the showdown are: the sort puts a strongest hand first, and the winners
  are exactly the players in the hand whose hand no other hand in the showdown beats.
\<close>

lemma evaluateHand_wellFormed: "evaluateHand cs = Inr (Some h) \<Longrightarrow> wellFormed h"
proof -
  assume a: "evaluateHand cs = Inr (Some h)"
  then have "5 \<le> length cs" by (auto simp: evaluateHand_def split: if_splits)
  from evaluateHand_result[OF this] a obtain c where
    "length c = 5" "h = (evaluate5Cards c)\<lparr>hcards := c\<rparr>" by auto
  then show ?thesis using evaluate5Cards_wellFormed[of c] by simp
qed

lemma evalResults_wellFormed:
  "evalResults t js = Inr rs \<Longrightarrow> \<forall>r \<in> set rs. wellFormed (snd r)"
proof (induction js arbitrary: rs)
  case Nil
  then show ?case by simp
next
  case (Cons j js)
  from Cons.prems obtain h rs' where
    e: "evaluateHand (holeCards (players t ! j) @ communityCards t) = Inr (Some h)"
    and r: "evalResults t js = Inr rs'" and rs: "rs = (j, h) # rs'"
    by (auto split: sum.splits option.splits)
  from evaluateHand_wellFormed[OF e] Cons.IH[OF r] rs show ?case by simp
qed

lemma handLe_refl: "wellFormed a \<Longrightarrow> handLe a a"
  using compareHands_zero[of a a] by (simp add: handLe_def sameHand_def)

lemma handLe_total: "wellFormed a \<Longrightarrow> wellFormed b \<Longrightarrow> handLe a b \<or> handLe b a"
proof -
  assume w: "wellFormed a" "wellFormed b"
  from compareHands_total[OF w] obtain v where v: "compareHands a b = Some v" by blast
  from compareHands_antisym[OF w v] v show ?thesis
    by (cases "v \<le> 0") (simp_all add: handLe_def)
qed

lemma not_pos_handLe:
  "wellFormed a \<Longrightarrow> wellFormed b \<Longrightarrow> \<not> js_pos (compareHands a b) \<Longrightarrow> handLe a b"
  using compareHands_total[of a b] by (auto simp: js_pos_def handLe_def)

lemma pos_handLe:
  "wellFormed a \<Longrightarrow> wellFormed b \<Longrightarrow> js_pos (compareHands a b) \<Longrightarrow> handLe b a"
proof -
  assume w: "wellFormed a" "wellFormed b" and p: "js_pos (compareHands a b)"
  then obtain v where v: "compareHands a b = Some v" "0 < v"
    by (auto simp: js_pos_def split: option.splits)
  from compareHands_antisym[OF w v(1)] v(2) show ?thesis by (simp add: handLe_def)
qed

lemma tie_iff:
  "wellFormed a \<Longrightarrow> wellFormed b \<Longrightarrow>
     js_zero (compareHands a b) = (handLe a b \<and> handLe b a)"
proof -
  assume w: "wellFormed a" "wellFormed b"
  from compareHands_total[OF w] obtain v where v: "compareHands a b = Some v" by blast
  from compareHands_antisym[OF w v] v show ?thesis
    by (auto simp: js_zero_def handLe_def)
qed

lemma insertResult_sorted:
  assumes "\<forall>r \<in> set (x # ys). wellFormed (snd r)"
    and "sorted_wrt (\<lambda>a b. handLe (snd b) (snd a)) ys"
  shows "sorted_wrt (\<lambda>a b. handLe (snd b) (snd a)) (insertResult x ys)"
  using assms
proof (induction ys)
  case Nil
  then show ?case by simp
next
  case (Cons y ys)
  have wx: "wellFormed (snd x)" and wy: "wellFormed (snd y)" using Cons.prems(1) by simp_all
  show ?case
  proof (cases "js_pos (compareHands (snd y) (snd x))")
    case True
    have xy: "handLe (snd x) (snd y)" by (rule pos_handLe[OF wy wx True])
    have "sorted_wrt (\<lambda>a b. handLe (snd b) (snd a)) (insertResult x ys)"
      using Cons.IH Cons.prems by simp
    moreover have "\<forall>z \<in> set (insertResult x ys). handLe (snd z) (snd y)"
      using Cons.prems(2) xy by (auto simp: set_insertResult)
    ultimately show ?thesis using True by simp
  next
    case False
    have yx: "handLe (snd y) (snd x)" by (rule not_pos_handLe[OF wy wx False])
    have "\<forall>z \<in> set ys. handLe (snd z) (snd x)"
    proof
      fix z assume z: "z \<in> set ys"
      then have "handLe (snd z) (snd y)" using Cons.prems(2) by simp
      moreover have "wellFormed (snd z)" using Cons.prems(1) z by simp
      ultimately show "handLe (snd z) (snd x)" using handLe_trans wy wx yx by blast
    qed
    then show ?thesis using False yx Cons.prems(2) by simp
  qed
qed

lemma sortResults_sorted:
  "\<forall>r \<in> set rs. wellFormed (snd r) \<Longrightarrow>
     sorted_wrt (\<lambda>a b. handLe (snd b) (snd a)) (sortResults rs)"
proof (induction rs)
  case Nil
  then show ?case by (simp add: sortResults_def)
next
  case (Cons r rs)
  have s: "sortResults (r # rs) = insertResult r (sortResults rs)" by (simp add: sortResults_def)
  have "\<forall>q \<in> set (r # sortResults rs). wellFormed (snd q)"
    using Cons.prems by (simp add: set_sortResults)
  from insertResult_sorted[OF this] Cons show ?case unfolding s by simp
qed

lemma takeWhile_ties:
  assumes "wellFormed h0"
    and "\<forall>r \<in> set xs. wellFormed (snd r) \<and> handLe (snd r) h0"
    and "sorted_wrt (\<lambda>a b. handLe (snd b) (snd a)) xs"
  shows "set (takeWhile (\<lambda>r. js_zero (compareHands (snd r) h0)) xs)
         = {r \<in> set xs. handLe h0 (snd r)}"
  using assms(2,3)
proof (induction xs)
  case Nil
  then show ?case by simp
next
  case (Cons x xs)
  have wx: "wellFormed (snd x)" and lx: "handLe (snd x) h0" using Cons.prems(1) by simp_all
  have IH: "set (takeWhile (\<lambda>r. js_zero (compareHands (snd r) h0)) xs)
            = {r \<in> set xs. handLe h0 (snd r)}"
    using Cons.IH Cons.prems by simp
  show ?case
  proof (cases "js_zero (compareHands (snd x) h0)")
    case True
    then have "handLe h0 (snd x)" using tie_iff[OF wx assms(1)] by simp
    then show ?thesis using True IH by auto
  next
    case False
    then have nx: "\<not> handLe h0 (snd x)" using tie_iff[OF wx assms(1)] lx by simp
    have "\<forall>z \<in> set xs. \<not> handLe h0 (snd z)"
    proof
      fix z assume z: "z \<in> set xs"
      then have zx: "handLe (snd z) (snd x)" using Cons.prems(2) by simp
      have wz: "wellFormed (snd z)" using Cons.prems(1) z by simp
      show "\<not> handLe h0 (snd z)"
      proof
        assume "handLe h0 (snd z)"
        from handLe_trans[OF assms(1) wz wx this zx] nx show False by simp
      qed
    qed
    then show ?thesis using False nx by auto
  qed
qed

lemma showdownWinners_best:
  assumes "evalResults t (getPlayersInHand t) = Inr results"
  shows "j \<in> set (showdownWinners t)
         \<longleftrightarrow> (\<exists>h. (j, h) \<in> set results \<and> (\<forall>r \<in> set results. handLe (snd r) h))"
proof (cases "sortResults results")
  case Nil
  then have "results = []" using set_sortResults[of results] by simp
  then show ?thesis using Nil by (simp add: showdownWinners_def assms)
next
  case (Cons r0 rest)
  have wf: "\<forall>r \<in> set results. wellFormed (snd r)" by (rule evalResults_wellFormed[OF assms])
  have st: "set results = insert r0 (set rest)" using set_sortResults[of results] Cons by simp
  have w0: "wellFormed (snd r0)" using wf st by simp
  have srt: "sorted_wrt (\<lambda>a b. handLe (snd b) (snd a)) (r0 # rest)"
    using sortResults_sorted[OF wf] Cons by simp
  then have below: "\<forall>r \<in> set rest. handLe (snd r) (snd r0)" by simp
  have top: "\<forall>r \<in> set results. handLe (snd r) (snd r0)"
    using below handLe_refl[OF w0] st by auto
  have "set (takeWhile (\<lambda>r. js_zero (compareHands (snd r) (snd r0))) rest)
        = {r \<in> set rest. handLe (snd r0) (snd r)}"
    using takeWhile_ties[OF w0, of rest] wf st below srt by auto
  then have ws: "set (winnersOf r0 rest) = {r \<in> set results. handLe (snd r0) (snd r)}"
    using handLe_refl[OF w0] st by (auto simp: winnersOf_def)
  have sw: "set (showdownWinners t) = fst ` set (winnersOf r0 rest)"
    by (simp add: showdownWinners_def assms Cons)
  show ?thesis
  proof
    assume "j \<in> set (showdownWinners t)"
    then obtain h where jh: "(j, h) \<in> set results" "handLe (snd r0) h"
      using sw ws by force
    have wh: "wellFormed h" using wf jh(1) by force
    have "\<forall>r \<in> set results. handLe (snd r) h"
    proof
      fix r assume r: "r \<in> set results"
      then have "wellFormed (snd r)" "handLe (snd r) (snd r0)" using wf top by simp_all
      then show "handLe (snd r) h" using handLe_trans w0 wh jh(2) by blast
    qed
    then show "\<exists>h. (j, h) \<in> set results \<and> (\<forall>r \<in> set results. handLe (snd r) h)"
      using jh(1) by blast
  next
    assume "\<exists>h. (j, h) \<in> set results \<and> (\<forall>r \<in> set results. handLe (snd r) h)"
    then obtain h where jh: "(j, h) \<in> set results" "\<forall>r \<in> set results. handLe (snd r) h" by blast
    have "handLe (snd r0) h" using jh(2) st by simp
    then have "(j, h) \<in> set (winnersOf r0 rest)" using ws jh(1) by simp
    then show "j \<in> set (showdownWinners t)" using sw by force
  qed
qed

text \<open>A raise whose amount is not a number passes both checks when it is the player's turn.\<close>

lemma raise_not_a_number:
  assumes "phase t \<noteq> WAITING" and "phase t \<noteq> SHOWDOWN"
    and "currentPlayerSeat t = Some s" and "indexOf (seats t) (Some i) = int s"
    and "players_get (players t) i = Some k"
  shows "raise t i NaN = NotNumeric"
  using assms by (simp add: raise_def validateAction_def)




text \<open>
  Fold, check and call leave the table's current bet as it is; a raise sets it to the
  raiser's bet, which is below the old value exactly when the amount is less than the call
  deficit.
\<close>

lemma moves_keep_currentBet:
  "currentBet (foldMove t k) = currentBet t \<and> currentBet (checkMove t k) = currentBet t
   \<and> currentBet (callMove t k) = currentBet t"
  by (simp add: foldMove_def checkMove_def callMove_def Let_def logAction_def)

lemma raiseMove_currentBet:
  "k < length (players t) \<Longrightarrow>
     currentBet (raiseMove t i k amount) = p_currentBet (players t ! k) + amount"
  by (simp add: raiseMove_def Let_def logAction_def)

lemma raiseMove_lowers_iff:
  "k < length (players t) \<Longrightarrow>
     (currentBet (raiseMove t i k amount) < currentBet t)
       = (amount < currentBet t - p_currentBet (players t ! k))"
  by (auto simp: raiseMove_currentBet)

text \<open>
  Claim C5 (the table-wide current bet never decreases within a betting round), evaluated
  where it fails. Three-handed before the flop, ben has raised to 1000; cy, to act with 390
  chips behind a bet of 10, goes all-in, which is \<^verbatim>\<open>raise\<close> with the whole stack. The raise
  sets the table's current bet to cy's bet of 400: it drops from 1000 to 400 while the phase
  stays PREFLOP.
\<close>

theorem short_allIn_lowers_currentBet:
  "phase threeWayRaised = PREFLOP
   \<and> currentBet threeWayRaised = 1000
   \<and> currentPlayerSeat threeWayRaised = Some 2
   \<and> seats threeWayRaised ! 2 = Some ''cy-3''
   \<and> chips (players threeWayRaised ! 2) = 390
   \<and> allIn_act threeWayRaised ''cy-3'' = Returns (tableOf (allIn_act threeWayRaised ''cy-3''))
   \<and> raise threeWayRaised ''cy-3'' (Num 390) = Returns (tableOf (allIn_act threeWayRaised ''cy-3''))
   \<and> phase (tableOf (allIn_act threeWayRaised ''cy-3'')) = PREFLOP
   \<and> currentBet (tableOf (allIn_act threeWayRaised ''cy-3'')) = 400
   \<and> currentBet (tableOf (allIn_act threeWayRaised ''cy-3'')) < currentBet threeWayRaised"
  by code_simp

text \<open>
  Claim C8 (every stack is a non-negative integer in every reachable state), evaluated where
  it fails. Heads-up on the default table after integer buy-ins and blinds, alice folds; the
  uncontested award credits bob with 30 minus the rake of 3/2 without rounding, and his stack
  becomes 817/2.
\<close>

theorem uncontested_award_fractional_chips:
  "map chips (players headsUp) = [390, 380]
   \<and> pot headsUp = 30
   \<and> list_all (\<lambda>p. isInteger (chips p)) (players headsUp)
   \<and> fold_act headsUp ''alice-1'' = Returns (tableOf (fold_act headsUp ''alice-1''))
   \<and> map chips (players (tableOf (fold_act headsUp ''alice-1''))) = [390, 817 / 2]
   \<and> \<not> isInteger (chips (players (tableOf (fold_act headsUp ''alice-1'')) ! 1))"
  by code_simp

text \<open>The showdown path floors each share, so it keeps integer stacks integer.\<close>

lemma isInteger_add_floor: "isInteger x \<Longrightarrow> isInteger (x + of_int z)"
  by (simp add: isInteger_def)

lemma creditWinners_integers:
  "\<forall>p \<in> set ps. isInteger (chips p) \<Longrightarrow>
     \<forall>p \<in> set (creditWinners (of_int z) ws ps). isInteger (chips p)"
proof (induction ws arbitrary: ps)
  case Nil
  then show ?case by (simp add: creditWinners_def)
next
  case (Cons w ws)
  let ?ps1 = "upd (fst w) (\<lambda>p. p\<lparr>chips := chips p + of_int z\<rparr>) ps"
  have c: "creditWinners (of_int z) (w # ws) ps = creditWinners (of_int z) ws ?ps1"
    by (simp add: creditWinners_def)
  have "\<forall>p \<in> set ?ps1. isInteger (chips p)"
  proof (cases "fst w < length ps")
    case True
    then have "isInteger (chips (ps ! fst w) + of_int z)"
      using Cons.prems by (simp add: isInteger_add_floor)
    moreover have "set ?ps1 \<subseteq> insert ((ps ! fst w)\<lparr>chips := chips (ps ! fst w) + of_int z\<rparr>) (set ps)"
      unfolding upd_def by (rule set_update_subset_insert)
    ultimately show ?thesis using Cons.prems by auto
  next
    case False
    then have "?ps1 = ps" by (simp add: upd_def list_update_beyond)
    then show ?thesis using Cons.prems by simp
  qed
  from Cons.IH[OF this] c show ?case by simp
qed

lemma showdown_keeps_integers:
  assumes "showdown t = Returns t'" and "\<forall>p \<in> set (players t). isInteger (chips p)"
  shows "\<forall>p \<in> set (players t'). isInteger (chips p)"
  using assms creditWinners_integers
  by (auto simp: showdown_def Let_def pushCompleted_def logAction_def
           split: sum.splits list.splits option.splits)

end
